theory Spec2Isabelle
  imports Complex_Main "HOL-Library.Char_ord" "HOL-Library.List_Lexorder"
begin

section \<open>Outcomes and their precedence (pysys.constants, as used by the sources)\<close>

text \<open>
  Modelled from the spec: the module pysys.constants, which defines the outcomes and the
  list \<open>PRECEDENT\<close>, is not among the sources. The outcome constants are integers; what
  the code uses of them is their identity and their position in \<open>PRECEDENT\<close>. The order
  below is that of the spec, which is also the one the docstring of
  \<open>ProcessUser.addOutcome\<close> gives.
\<close>

datatype outcome =
  SKIPPED | BLOCKED | DUMPEDCORE | TIMEDOUT | FAILED | NOTVERIFIED | INSPECT | PASSED

definition PRECEDENT :: "outcome list" where
  "PRECEDENT = [SKIPPED, BLOCKED, DUMPEDCORE, TIMEDOUT, FAILED, NOTVERIFIED, INSPECT, PASSED]"

text \<open>
  Python's \<open>xs.index(x)\<close>: the position of the first occurrence. It raises ValueError
  when \<open>x\<close> is absent, which here is the value \<open>length xs\<close>; every outcome occurs in
  \<open>PRECEDENT\<close> (lemma \<open>outcome_in_PRECEDENT\<close>), so that value is never produced there.
\<close>

fun list_index :: "'a list \<Rightarrow> 'a \<Rightarrow> nat" where
  "list_index [] x = 0"
| "list_index (y # ys) x = (if x = y then 0 else Suc (list_index ys x))"

section \<open>Exceptions\<close>

datatype exn =
  KeyboardInterrupt
| SystemExit
| AbortExecution outcome string
| OtherException string

text \<open>What a clause \<open>except Exception\<close> catches: everything but the two interrupts.\<close>

fun is_Exception :: "exn \<Rightarrow> bool" where
  "is_Exception KeyboardInterrupt = False"
| "is_Exception SystemExit = False"
| "is_Exception (AbortExecution oc r) = True"
| "is_Exception (OtherException m) = True"

section \<open>The process-user substrate (pysys/process/user.py)\<close>

text \<open>
  Modelled from the spec: \<open>ProcessWrapper\<close> (pysys.process.helper) is not among the
  sources. Of a process handle the substrate reads \<open>running()\<close> and calls \<open>stop()\<close>;
  per the spec a stopped process has \<open>running() == false\<close>. The guarded call in
  \<open>ProcessUser.cleanup\<close> provides for a \<open>stop()\<close> that raises; such a handle
  (\<open>stopFails\<close>) is left as it is.
\<close>

record process =
  displayName :: string
  running :: bool
  stopFails :: bool

definition process_stop :: "process \<Rightarrow> exn + process" where
  "process_stop p =
     (if stopFails p then Inl (OtherException ''ProcessError'')
      else Inr (p\<lparr>running := False\<rparr>))"

text \<open>
  The state of a \<open>ProcessUser\<close>. Process handles are objects shared with the test
  code, so \<open>processList\<close> holds references (numbers) into a store of processes; cleanup
  functions are callables compared by identity, so they are kept as values of a type
  \<open>'f\<close> of function identities.
\<close>

record 'f process_user =
  processList :: "nat list"
  processCount :: "string \<rightharpoonup> nat"
  cleanupFunctions :: "'f list"
  outcome :: "outcome list"
  outcomeReason :: string
  defaultAbortOnError :: bool
  uniqueProcessKeys :: "string \<rightharpoonup> int"
  outputDir :: string

definition init_process_user :: "bool \<Rightarrow> string \<Rightarrow> 'f process_user" where
  "init_process_user abortDefault outdir =
     \<lparr> processList = [], processCount = Map.empty, cleanupFunctions = [],
       outcome = [], outcomeReason = '''', defaultAbortOnError = abortDefault,
       uniqueProcessKeys = Map.empty, outputDir = outdir \<rparr>"

subsection \<open>getOutcome\<close>

text \<open>
  \<^verbatim>\<open>if len(self.outcome) == 0: return NOTVERIFIED
  return sorted(self.outcome, key=lambda x: PRECEDENT.index(x))[0]\<close>
  Python's \<open>sorted\<close> is stable, as is \<open>sort_key\<close>.
\<close>

definition getOutcome :: "('f, 'x) process_user_scheme \<Rightarrow> outcome" where
  "getOutcome st =
     (if length (outcome st) = 0 then NOTVERIFIED
      else hd (sort_key (\<lambda>x. list_index PRECEDENT x) (outcome st)))"

subsection \<open>Strings and paths (Python built-ins used by the substrate)\<close>

text \<open>\<open>str.strip()\<close> removes leading and trailing whitespace (space, \<open>\t \n \v \f \r\<close>).\<close>

definition isspace :: "char \<Rightarrow> bool" where
  "isspace c = (c \<in> set [CHR '' '', CHR 0x09, CHR 0x0A, CHR 0x0B, CHR 0x0C, CHR 0x0D])"

definition strip :: "string \<Rightarrow> string" where
  "strip s = rev (dropWhile isspace (rev (dropWhile isspace s)))"

text \<open>The format \<open>'%d' % n\<close>: decimal digits, with a minus sign for a negative number.\<close>

definition digit_char :: "nat \<Rightarrow> char" where
  "digit_char n = ''0123456789'' ! (n mod 10)"

function string_of_nat :: "nat \<Rightarrow> string" where
  "string_of_nat n =
     (if n < 10 then [digit_char n] else string_of_nat (n div 10) @ [digit_char (n mod 10)])"
  by pat_completeness auto
termination
  by (relation "measure id") auto

declare string_of_nat.simps [simp del]

definition format_d :: "int \<Rightarrow> string" where
  "format_d i = (if i < 0 then CHR ''-'' # string_of_nat (nat (- i)) else string_of_nat (nat i))"

text \<open>\<open>os.path.join(a, b)\<close> of posixpath, for two components.\<close>

definition path_join :: "string \<Rightarrow> string \<Rightarrow> string" where
  "path_join a b =
     (if b \<noteq> [] \<and> hd b = CHR ''/'' then b
      else if a = [] \<or> last a = CHR ''/'' then a @ b
      else a @ ''/'' @ b)"

subsection \<open>allocateUniqueStdOutErr\<close>

text \<open>
  \<^verbatim>\<open>newval = self.__uniqueProcessKeys.get(processKey, -1)+1
  self.__uniqueProcessKeys[processKey] = newval
  suffix = '.%d'%(newval) if newval > 0 else ''
  return STDOUTERR_TUPLE(os.path.join(self.output, processKey+suffix+'.out'),
                         os.path.join(self.output, processKey+suffix+'.err'))\<close>
\<close>

definition allocateUniqueStdOutErr ::
  "('f, 'x) process_user_scheme \<Rightarrow> string \<Rightarrow> ('f, 'x) process_user_scheme \<times> (string \<times> string)" where
  "allocateUniqueStdOutErr st processKey =
     (let newval = (case uniqueProcessKeys st processKey of None \<Rightarrow> - 1 | Some v \<Rightarrow> v) + 1;
          st' = st\<lparr>uniqueProcessKeys := (uniqueProcessKeys st)(processKey \<mapsto> newval)\<rparr>;
          suffix = (if newval > 0 then ''.'' @ format_d newval else '''')
      in (st', (path_join (outputDir st) (processKey @ suffix @ ''.out''),
                path_join (outputDir st) (processKey @ suffix @ ''.err''))))"

text \<open>A sequence of allocations on one object, returning the names in order.\<close>

fun allocate_seq :: "('f, 'x) process_user_scheme \<Rightarrow> string list \<Rightarrow> (string \<times> string) list" where
  "allocate_seq st [] = []"
| "allocate_seq st (k # ks) =
     (case allocateUniqueStdOutErr st k of (st', r) \<Rightarrow> r # allocate_seq st' ks)"

subsection \<open>addOutcome and getOutcomeReason\<close>

text \<open>
  \<open>FAILS\<close> (pysys.constants) is not among the sources and is a parameter. The argument
  \<open>abortOnError\<close> is \<open>None\<close> or a boolean; a reason that is \<open>None\<close> or empty
  becomes the empty string, any other is stripped. The outcome is appended and the reason
  replaced before the abort is raised, so both are part of the state that the exception
  leaves behind. The log lines the method prints are not part of the model.
  \<^verbatim>\<open>if abortOnError == None: abortOnError = self.defaultAbortOnError
  outcomeReason = outcomeReason.strip() if outcomeReason else ''
  old = self.getOutcome()
  self.outcome.append(outcome)
  if self.getOutcome() != old: self.__outcomeReason = outcomeReason
  if outcome in FAILS and abortOnError:
      self.abort(outcome, outcomeReason, callRecord)\<close>
\<close>

definition addOutcome ::
  "outcome list \<Rightarrow> ('f, 'x) process_user_scheme \<Rightarrow> outcome \<Rightarrow> string \<Rightarrow> bool option
     \<Rightarrow> ('f, 'x) process_user_scheme \<times> exn option" where
  "addOutcome FAILS st oc reason abortOnError =
     (let abort = (case abortOnError of None \<Rightarrow> defaultAbortOnError st | Some b \<Rightarrow> b);
          reason' = (if reason \<noteq> '''' then strip reason else '''');
          old = getOutcome st;
          st1 = st\<lparr>outcome := outcome st @ [oc]\<rparr>;
          st2 = (if getOutcome st1 \<noteq> old then st1\<lparr>outcomeReason := reason'\<rparr> else st1)
      in if oc \<in> set FAILS \<and> abort then (st2, Some (AbortExecution oc reason'))
         else (st2, None))"

definition getOutcomeReason :: "('f, 'x) process_user_scheme \<Rightarrow> string" where
  "getOutcomeReason st = outcomeReason st"

text \<open>
  A sequence of \<open>addOutcome\<close> calls on one object, each given as (outcome, reason,
  abortOnError). An abort unwinds the caller, not the object: later calls (those of the
  container, for one) act on the state the aborted call left.
\<close>

fun addOutcomes ::
  "outcome list \<Rightarrow> ('f, 'x) process_user_scheme \<Rightarrow> (outcome \<times> string \<times> bool option) list
     \<Rightarrow> ('f, 'x) process_user_scheme" where
  "addOutcomes FAILS st [] = st"
| "addOutcomes FAILS st ((oc, reason, ab) # cs) =
     addOutcomes FAILS (fst (addOutcome FAILS st oc reason ab)) cs"

text \<open>The reason as \<open>addOutcome\<close> normalises it.\<close>

definition stored_reason :: "string \<Rightarrow> string" where
  "stored_reason reason = (if reason \<noteq> '''' then strip reason else '''')"

text \<open>
  The reason, as stored, that was given with the first call of a sequence that added the
  outcome \<open>oc\<close>.
\<close>

fun reason_given :: "outcome \<Rightarrow> (outcome \<times> string \<times> bool option) list \<Rightarrow> string option" where
  "reason_given oc [] = None"
| "reason_given oc ((oc', reason, ab) # cs) =
     (if oc' = oc then Some (stored_reason reason) else reason_given oc cs)"

subsection \<open>addCleanupFunction and cleanup\<close>

text \<open>
  \<^verbatim>\<open>if fn and fn not in self.__cleanupFunctions:
      self.__cleanupFunctions.append(fn)\<close>
  The argument is \<open>None\<close> for a falsy value.
\<close>

definition addCleanupFunction ::
  "('f, 'x) process_user_scheme \<Rightarrow> 'f option \<Rightarrow> ('f, 'x) process_user_scheme" where
  "addCleanupFunction st fn =
     (case fn of
        None \<Rightarrow> st
      | Some f \<Rightarrow>
          if f \<notin> set (cleanupFunctions st)
          then st\<lparr>cleanupFunctions := cleanupFunctions st @ [f]\<rparr>
          else st)"

text \<open>
  What calling a registered function does is given by its behaviour: it returns or it
  raises. What \<open>cleanup\<close> does is recorded as a list of events, in order.
\<close>

datatype fn_result = Returns | Raises exn

datatype 'f cleanup_event =
  Invoked 'f
| LoggedError 'f exn
| Stopped nat
| StopFailed nat exn

text \<open>
  The loop over \<open>reversed(self.__cleanupFunctions)\<close>; the argument is the list in
  the order of the iteration. An exception that \<open>except Exception\<close> does not catch
  ends the loop and is returned.
\<close>

fun run_cleanup_functions ::
  "('f \<Rightarrow> fn_result) \<Rightarrow> 'f list \<Rightarrow> 'f cleanup_event list \<times> exn option" where
  "run_cleanup_functions run [] = ([], None)"
| "run_cleanup_functions run (f # fs) =
     (case run f of
        Returns \<Rightarrow>
          (case run_cleanup_functions run fs of (ev, e) \<Rightarrow> (Invoked f # ev, e))
      | Raises x \<Rightarrow>
          if is_Exception x
          then (case run_cleanup_functions run fs of
                  (ev, e) \<Rightarrow> (Invoked f # LoggedError f x # ev, e))
          else ([Invoked f], Some x))"

text \<open>
  The loop of the \<open>finally\<close> block; \<open>stop_one\<close> is its body:
  \<^verbatim>\<open>for process in self.processList:
      try:
          if process.running(): process.stop()
      except Exception: log.info(...)\<close>
\<close>

definition stop_one ::
  "nat \<Rightarrow> (nat \<Rightarrow> process) \<Rightarrow> (nat \<Rightarrow> process) \<times> 'f cleanup_event list" where
  "stop_one p h =
     (if running (h p)
      then (case process_stop (h p) of
              Inr q \<Rightarrow> (h(p := q), [Stopped p])
            | Inl e \<Rightarrow> (h, [StopFailed p e]))
      else (h, []))"

fun stop_processes ::
  "nat list \<Rightarrow> (nat \<Rightarrow> process) \<Rightarrow> (nat \<Rightarrow> process) \<times> 'f cleanup_event list" where
  "stop_processes [] h = (h, [])"
| "stop_processes (p # ps) h =
     (case stop_one p h of
        (h1, ev1) \<Rightarrow> (case stop_processes ps h1 of (h2, ev2) \<Rightarrow> (h2, ev1 @ ev2)))"

text \<open>
  \<open>cleanup\<close>: the stack is emptied only when the loop over the functions ends without
  an uncaught exception; the \<open>finally\<close> block runs in both cases, and the uncaught
  exception, if any, leaves the method after it.
\<close>

definition cleanup ::
  "('f \<Rightarrow> fn_result) \<Rightarrow> ('f, 'x) process_user_scheme \<Rightarrow> (nat \<Rightarrow> process)
     \<Rightarrow> ('f, 'x) process_user_scheme \<times> (nat \<Rightarrow> process) \<times> 'f cleanup_event list \<times> exn option" where
  "cleanup run st h =
     (case run_cleanup_functions run (rev (cleanupFunctions st)) of
        (ev1, exc) \<Rightarrow>
          let st1 = (if exc = None then st\<lparr>cleanupFunctions := []\<rparr> else st) in
          (case stop_processes (processList st1) h of
             (h', ev2) \<Rightarrow>
               (st1\<lparr>processList := [], processCount := Map.empty\<rparr>, h', ev1 @ ev2, exc)))"

text \<open>The functions invoked, the errors logged and the processes stopped, read off the events.\<close>

fun invoked_fns :: "'f cleanup_event list \<Rightarrow> 'f list" where
  "invoked_fns [] = []"
| "invoked_fns (Invoked f # ev) = f # invoked_fns ev"
| "invoked_fns (e # ev) = invoked_fns ev"

fun is_fn_event :: "'f cleanup_event \<Rightarrow> bool" where
  "is_fn_event (Invoked f) = True"
| "is_fn_event (LoggedError f x) = True"
| "is_fn_event (Stopped p) = False"
| "is_fn_event (StopFailed p x) = False"





definition cleanup_events ::
  "('f, 'x) process_user_scheme \<times> (nat \<Rightarrow> process) \<times> 'f cleanup_event list \<times> exn option
     \<Rightarrow> 'f cleanup_event list" where
  "cleanup_events r = fst (snd (snd r))"


section \<open>The runner (pysys/baserunner.py)\<close>

subsection \<open>testComplete\<close>

text \<open>
  An entry of the output directory as the runner sees it: the name that \<open>os.listdir\<close>
  returns, whether the mode is that of a regular file and the size, as \<open>os.lstat\<close> (or
  \<open>os.stat\<close>) reports them, whether that call raises OSError, and how many consecutive
  calls of \<open>os.remove\<close> on it raise before one succeeds (3 or more: each of the three
  attempts fails, as for a directory).
\<close>

record dir_entry =
  name :: string
  regular :: bool
  size :: nat
  statFails :: bool
  removeFailures :: nat

text \<open>
  \<^verbatim>\<open>if self.purge:
      removeNonZero = True
      for outcome in testObj.outcome:
          if outcome != PASSED:
              removeNonZero = False
              break
  else:
      removeNonZero = False\<close>
\<close>

fun all_PASSED :: "outcome list \<Rightarrow> bool" where
  "all_PASSED [] = True"
| "all_PASSED (oc # ocs) = (if oc \<noteq> PASSED then False else all_PASSED ocs)"

definition removeNonZero :: "bool \<Rightarrow> outcome list \<Rightarrow> bool" where
  "removeNonZero purge ocs = (if purge then all_PASSED ocs else False)"

text \<open>
  \<open>re.search('run.log', file)\<close>: the pattern is a regular expression, searched anywhere
  in the name; its dot matches any character but a newline.
\<close>

fun match_run_log :: "string \<Rightarrow> bool" where
  "match_run_log (c1 # c2 # c3 # c4 # c5 # c6 # c7 # cs) =
     (c1 = CHR ''r'' \<and> c2 = CHR ''u'' \<and> c3 = CHR ''n'' \<and> c4 \<noteq> CHR 0x0A
      \<and> c5 = CHR ''l'' \<and> c6 = CHR ''o'' \<and> c7 = CHR ''g'')"
| "match_run_log cs = False"

fun search_run_log :: "string \<Rightarrow> bool" where
  "search_run_log [] = False"
| "search_run_log (c # cs) = (match_run_log (c # cs) \<or> search_run_log cs)"

text \<open>
  \<^verbatim>\<open>count = 0
  while count < 3:
      try:
          os.remove(path)
          break
      except:
          time.sleep(0.1)
          count = count + 1\<close>
  The result says whether the file was removed.
\<close>

function remove_with_retries :: "dir_entry \<Rightarrow> nat \<Rightarrow> bool" where
  "remove_with_retries e count =
     (if count < 3
      then (if removeFailures e \<le> count then True else remove_with_retries e (count + 1))
      else False)"
  by pat_completeness auto
termination
  by (relation "measure (\<lambda>(e, count). 3 - count)") auto

declare remove_with_retries.simps [simp del]

text \<open>
  The loop over the listing; the result is the listing that is left. An OSError of the
  stat call leaves the loop (the \<open>try\<close> encloses it), with the remaining entries untouched.
\<close>

fun purge_listing :: "bool \<Rightarrow> dir_entry list \<Rightarrow> dir_entry list" where
  "purge_listing rnz [] = []"
| "purge_listing rnz (e # es) =
     (if statFails e then e # es
      else if size e = 0 \<or> (rnz \<and> \<not> search_run_log (name e))
      then (if remove_with_retries e 0 then purge_listing rnz es else e # purge_listing rnz es)
      else e # purge_listing rnz es)"

text \<open>
  The file system maps a directory to its listing; \<open>None\<close> is a directory that
  \<open>os.listdir\<close> cannot read (OSError, which \<open>testComplete\<close> swallows).
\<close>

definition testComplete ::
  "bool \<Rightarrow> outcome list \<Rightarrow> string \<Rightarrow> (string \<rightharpoonup> dir_entry list) \<Rightarrow> (string \<rightharpoonup> dir_entry list)" where
  "testComplete purge ocs dir fs =
     (case fs dir of
        None \<Rightarrow> fs
      | Some es \<Rightarrow> fs(dir \<mapsto> purge_listing (removeNonZero purge ocs) es))"

subsection \<open>TestContainer\<close>

text \<open>
  \<open>detectCore\<close>: the first regular file whose name begins with \<open>core\<close> makes the
  result true; the method returns \<open>None\<close> (false) otherwise, and an OSError of
  \<open>os.listdir\<close> or \<open>os.stat\<close> leaves it.
\<close>

fun detectCore_listing :: "dir_entry list \<Rightarrow> exn + bool" where
  "detectCore_listing [] = Inr False"
| "detectCore_listing (e # es) =
     (if statFails e then Inl (OtherException ''OSError'')
      else if regular e \<and> take 4 (name e) = ''core'' then Inr True
      else detectCore_listing es)"

definition detectCore :: "dir_entry list option \<Rightarrow> exn + bool" where
  "detectCore listing =
     (case listing of None \<Rightarrow> Inl (OtherException ''OSError'') | Some es \<Rightarrow> detectCore_listing es)"

text \<open>
  What the container reads of the descriptor and of the runner, and what the code it calls
  does: \<open>prepare\<close> is the first \<open>try\<close> block (output directory, log handler), \<open>load\<close>
  the import and construction of the test object, \<open>placeholder\<close> the \<open>BaseTest\<close> built
  when that fails; \<open>setupTest\<close>, \<open>executeTest\<close>, \<open>validateTest\<close> and \<open>cleanupTest\<close>
  are the methods \<open>setup\<close>, \<open>execute\<close>, \<open>validate\<close> and \<open>cleanup\<close> of the test object, each returning the object as it leaves it and the exception
  it raises, if any; \<open>outputListing\<close> is the output directory after \<open>validate\<close>.
\<close>

record descriptor =
  descriptorId :: string
  descriptorState :: string
  modes :: "string list"

record 'f test_behaviour =
  prepare :: "exn option"
  load :: "exn + 'f process_user"
  placeholder :: "'f process_user"
  setupTest :: "'f process_user \<Rightarrow> 'f process_user \<times> exn option"
  executeTest :: "'f process_user \<Rightarrow> 'f process_user \<times> exn option"
  validateTest :: "'f process_user \<Rightarrow> 'f process_user \<times> exn option"
  outputListing :: "dir_entry list option"
  cleanupTest :: "'f process_user \<Rightarrow> 'f process_user \<times> exn option"

record 'f container =
  counter :: nat
  containerDescriptor :: descriptor
  cycle :: nat
  testObj :: "'f process_user option"
  testTime :: real
  kbrdInt :: bool

text \<open>
  A method call on \<open>self.testObj\<close>, which is \<open>None\<close> until the test object is set:
  the call on \<open>None\<close> raises AttributeError.
\<close>

definition on_testObj ::
  "'f process_user option \<Rightarrow> ('f process_user \<Rightarrow> 'f process_user \<times> exn option)
     \<Rightarrow> 'f process_user option \<times> exn option" where
  "on_testObj t m =
     (case t of
        None \<Rightarrow> (None, Some (OtherException ''AttributeError''))
      | Some s \<Rightarrow> (case m s of (s', e) \<Rightarrow> (Some s', e)))"

text \<open>Statements in sequence: the second runs only when the first raises nothing.\<close>

definition and_then ::
  "'f process_user option \<times> exn option
     \<Rightarrow> ('f process_user option \<Rightarrow> 'f process_user option \<times> exn option)
     \<Rightarrow> 'f process_user option \<times> exn option" where
  "and_then r k = (case r of (t, Some e) \<Rightarrow> (t, Some e) | (t, None) \<Rightarrow> k t)"

text \<open>
  The body of the third \<open>try\<close> block of \<open>__call__\<close>:
  \<^verbatim>\<open>if self.descriptor.state != 'runnable':
      self.testObj.addOutcome(SKIPPED)
  elif self.runner.mode and self.runner.mode not in self.descriptor.modes:
      self.testObj.addOutcome(SKIPPED)
  elif len(exc_info) > 0:
      self.testObj.addOutcome(BLOCKED)
  elif self.kbrdInt:
      self.testObj.addOutcome(BLOCKED)
  else:
      self.testObj.setup()
      self.testObj.execute()
      self.testObj.validate()
      if self.detectCore(self.outsubdir):
          self.testObj.addOutcome(DUMPEDCORE)\<close>
  The runner's mode is the empty string when it is not set.
\<close>

definition run_test ::
  "outcome list \<Rightarrow> descriptor \<Rightarrow> string \<Rightarrow> 'f test_behaviour \<Rightarrow> exn list \<Rightarrow> bool
     \<Rightarrow> 'f process_user option \<Rightarrow> 'f process_user option \<times> exn option" where
  "run_test FAILS d mode b exc_info kb t =
     (if descriptorState d \<noteq> ''runnable''
        then on_testObj t (\<lambda>s. addOutcome FAILS s SKIPPED '''' None)
      else if mode \<noteq> '''' \<and> mode \<notin> set (modes d)
        then on_testObj t (\<lambda>s. addOutcome FAILS s SKIPPED '''' None)
      else if length exc_info > 0
        then on_testObj t (\<lambda>s. addOutcome FAILS s BLOCKED '''' None)
      else if kb
        then on_testObj t (\<lambda>s. addOutcome FAILS s BLOCKED '''' None)
      else
        and_then (on_testObj t (setupTest b)) (\<lambda>t1.
        and_then (on_testObj t1 (executeTest b)) (\<lambda>t2.
        and_then (on_testObj t2 (validateTest b)) (\<lambda>t3.
          case detectCore (outputListing b) of
            Inl e \<Rightarrow> (t3, Some e)
          | Inr True \<Rightarrow> on_testObj t3 (\<lambda>s. addOutcome FAILS s DUMPEDCORE '''' None)
          | Inr False \<Rightarrow> (t3, None)))))"

text \<open>
  \<open>TestContainer.__call__\<close>. The result is the container as the call leaves it, and the
  exception that leaves the call, if any (\<open>None\<close>: the call returns \<open>self\<close>).
  \<^item> First block: a KeyboardInterrupt sets \<open>kbrdInt\<close>, any other exception is kept in
    \<open>exc_info\<close>.
  \<^item> Second block: a KeyboardInterrupt sets \<open>kbrdInt\<close> and leaves \<open>testObj\<close> unset; any
    other exception is kept and the placeholder becomes the test object.
  \<^item> Third block: \<open>except KeyboardInterrupt\<close> sets \<open>kbrdInt\<close> and adds BLOCKED; the bare
    \<open>except\<close> adds BLOCKED. What \<open>addOutcome\<close> raises inside a handler leaves the call.
  \<^item> Fourth block: \<open>self.testObj.cleanup()\<close> with \<open>except KeyboardInterrupt\<close> only.
  \<^item> Fifth block (duration, log, handler): every exception is swallowed.
\<close>

definition container_call ::
  "outcome list \<Rightarrow> string \<Rightarrow> 'f test_behaviour \<Rightarrow> real \<Rightarrow> 'f container
     \<Rightarrow> 'f container \<times> exn option" where
  "container_call FAILS mode b elapsed c =
     (let (kb1, exc1) =
            (case prepare b of
               None \<Rightarrow> (kbrdInt c, [])
             | Some KeyboardInterrupt \<Rightarrow> (True, [])
             | Some e \<Rightarrow> (kbrdInt c, [e]));
          (t2, kb2, exc2) =
            (case load b of
               Inr t \<Rightarrow> (Some t, kb1, exc1)
             | Inl KeyboardInterrupt \<Rightarrow> (testObj c, True, exc1)
             | Inl e \<Rightarrow> (Some (placeholder b), kb1, exc1 @ [e]));
          (t3, kb3, raised3) =
            (case run_test FAILS (containerDescriptor c) mode b exc2 kb2 t2 of
               (t, None) \<Rightarrow> (t, kb2, None)
             | (t, Some KeyboardInterrupt) \<Rightarrow>
                 (case on_testObj t (\<lambda>s. addOutcome FAILS s BLOCKED '''' None) of
                    (t', r) \<Rightarrow> (t', True, r))
             | (t, Some e) \<Rightarrow>
                 (case on_testObj t (\<lambda>s. addOutcome FAILS s BLOCKED '''' None) of
                    (t', r) \<Rightarrow> (t', kb2, r)))
      in case raised3 of
           Some e \<Rightarrow> (c\<lparr>testObj := t3, kbrdInt := kb3\<rparr>, Some e)
         | None \<Rightarrow>
             (let (t4, kb4, raised4) =
                    (case on_testObj t3 (cleanupTest b) of
                       (t, None) \<Rightarrow> (t, kb3, None)
                     | (t, Some KeyboardInterrupt) \<Rightarrow>
                         (case on_testObj t (\<lambda>s. addOutcome FAILS s BLOCKED '''' None) of
                            (t', r) \<Rightarrow> (t', True, r))
                     | (t, Some e) \<Rightarrow> (t, kb3, Some e))
              in case raised4 of
                   Some e \<Rightarrow> (c\<lparr>testObj := t4, kbrdInt := kb4\<rparr>, Some e)
                 | None \<Rightarrow> (c\<lparr>testObj := t4, kbrdInt := kb4, testTime := elapsed\<rparr>, None)))"

text \<open>A freshly constructed container, as \<open>TestContainer.__init__\<close> leaves it.\<close>

definition init_container :: "nat \<Rightarrow> descriptor \<Rightarrow> nat \<Rightarrow> 'f container" where
  "init_container n d cyc =
     \<lparr> counter = n, containerDescriptor = d, cycle = cyc, testObj = None, testTime = 0,
       kbrdInt = False \<rparr>"

subsection \<open>The results queue and containerCallback\<close>

text \<open>
  What the runner publishes is recorded as a trace of events, each on a channel and
  carrying the counter of the container published: the flush of the buffered log lines,
  the line with the outcome on a console that shows warnings only, the call of
  \<open>testComplete\<close>, the call of \<open>processResult\<close> of the writer at a position of
  \<open>self.writers\<close>, the prompt after a keyboard interrupt, and the tally in
  \<open>self.results\<close>.
\<close>

datatype channel = Flush | Console | TestComplete | Writer nat | Prompt | Tally

text \<open>
  \<open>BaseRunner\<close> extends \<open>ProcessUser\<close>. \<open>self.record\<close> is the field \<open>recordResults\<close>;
  \<open>self.results\<close> maps a cycle and an outcome to the list of test ids (\<open>start\<close> creates
  the entry of a cycle, with an empty list for every outcome, before it creates the
  containers of the cycle); \<open>published\<close> is the trace. \<open>consoleWarn\<close> says that the
  level of the console handler (\<open>stdoutHandler\<close>, a global of the package) is
  \<open>logging.WARN\<close> or above.
\<close>

record 'f runner = "'f process_user" +
  consoleWarn :: bool
  recordResults :: bool
  purge :: bool
  threads :: nat
  writers :: "string list"
  duration :: real
  results :: "nat \<Rightarrow> outcome \<Rightarrow> string list"
  resultsPointer :: nat
  resultsQueue :: "'f container option list"
  published :: "(channel \<times> nat) list"

text \<open>The container indices published on a channel, in order.\<close>

definition on_channel :: "channel \<Rightarrow> (channel \<times> nat) list \<Rightarrow> nat list" where
  "on_channel ch ev = map snd (filter (\<lambda>e. fst e = ch) ev)"

text \<open>
  The events of one pass of the loop body of \<open>containerCallback\<close> up to and including
  the prompt: the flush (more than one thread only), the line on the console (when it
  shows warnings only), \<open>testComplete\<close>, every writer (when recording; an exception of
  a writer is caught and logged), the prompt when the container was interrupted.
\<close>

definition slot_events :: "'f runner \<Rightarrow> 'f container \<Rightarrow> (channel \<times> nat) list" where
  "slot_events st c =
     (if threads st > 1 then [(Flush, counter c)] else [])
     @ (if consoleWarn st then [(Console, counter c)] else [])
     @ [(TestComplete, counter c)]
     @ (if recordResults st then map (\<lambda>k. (Writer k, counter c)) [0..<length (writers st)] else [])
     @ (if kbrdInt c then [(Prompt, counter c)] else [])"

text \<open>
  The body of the loop for the slot \<open>i\<close>, which holds the container \<open>c\<close>.
  \<open>handleKbrdInt\<close> asks the operator whether to continue; \<open>quits n\<close> says that the
  answer for the container with counter \<open>n\<close> is no. Then \<open>handleKbrdInt\<close> calls
  \<open>printSummary\<close>, \<open>cycleComplete\<close> and \<open>self.cleanup()\<close>, which is
  \<open>ProcessUser.__del__(self)\<close>: \<open>ProcessUser\<close> has no such attribute, so an
  AttributeError leaves the callback, before \<open>sys.exit(1)\<close> and before the tally. A
  container without a test object raises AttributeError where the object is first read:
  in the line for the console when that shows warnings only, else in \<open>testComplete\<close>
  when purging, else in the tally (after the duration was added).
  \<^verbatim>\<open>if stdoutHandler.level >= logging.WARN:
      log.critical("%s: %s", LOOKUP[self.resultsQueue[i].testObj.getOutcome()],
                   self.resultsQueue[i].descriptor.id)
  self.testComplete(self.resultsQueue[i].testObj, self.resultsQueue[i].outsubdir)
  if self.record:
      for writer in self.writers:
          try: writer.processResult(self.resultsQueue[i].testObj, cycle=self.resultsQueue[i].cycle)
          except: log.info(...)
  if self.resultsQueue[i].kbrdInt == True: self.handleKbrdInt()
  self.duration = self.duration + self.resultsQueue[i].testTime
  self.results[self.resultsQueue[i].cycle][self.resultsQueue[i].testObj.getOutcome()].append(
      self.resultsQueue[i].descriptor.id)
  self.resultsQueue[i] = None
  self.resultsPointer = self.resultsPointer + 1\<close>
\<close>

definition publish_slot ::
  "(nat \<Rightarrow> bool) \<Rightarrow> 'f runner \<Rightarrow> nat \<Rightarrow> 'f container \<Rightarrow> 'f runner \<times> exn option" where
  "publish_slot quits st i c =
     (case testObj c of
        None \<Rightarrow>
          if consoleWarn st
          then (st\<lparr>published := published st
                    @ (if threads st > 1 then [(Flush, counter c)] else [])\<rparr>,
                Some (OtherException ''AttributeError''))
          else if purge st
          then (st\<lparr>published := published st
                    @ (if threads st > 1 then [(Flush, counter c)] else [])
                    @ [(TestComplete, counter c)]\<rparr>,
                Some (OtherException ''AttributeError''))
          else if kbrdInt c \<and> quits (counter c)
          then (st\<lparr>published := published st @ slot_events st c\<rparr>,
                Some (OtherException ''AttributeError''))
          else (st\<lparr>published := published st @ slot_events st c,
                   duration := duration st + testTime c\<rparr>,
                Some (OtherException ''AttributeError''))
      | Some t \<Rightarrow>
          if kbrdInt c \<and> quits (counter c)
          then (st\<lparr>published := published st @ slot_events st c\<rparr>,
                Some (OtherException ''AttributeError''))
          else (st\<lparr>published := published st @ slot_events st c @ [(Tally, counter c)],
                   duration := duration st + testTime c,
                   results := (results st)(cycle c :=
                      (results st (cycle c))(getOutcome t :=
                         results st (cycle c) (getOutcome t)
                         @ [descriptorId (containerDescriptor c)])),
                   resultsQueue := (resultsQueue st)[i := None],
                   resultsPointer := resultsPointer st + 1\<rparr>,
                None))"

text \<open>
  \<^verbatim>\<open>for i in range(self.resultsPointer, len(self.resultsQueue)):
      if self.resultsQueue[i] == None: break
      ...\<close>
  The bound \<open>n\<close> is the length of the queue when the loop starts.
\<close>

function publish_loop ::
  "(nat \<Rightarrow> bool) \<Rightarrow> 'f runner \<Rightarrow> nat \<Rightarrow> nat \<Rightarrow> 'f runner \<times> exn option" where
  "publish_loop quits st i n =
     (if i < n \<and> i < length (resultsQueue st)
      then (case resultsQueue st ! i of
              None \<Rightarrow> (st, None)
            | Some c \<Rightarrow>
                (case publish_slot quits st i c of
                   (st', Some e) \<Rightarrow> (st', Some e)
                 | (st', None) \<Rightarrow> publish_loop quits st' (i + 1) n))
      else (st, None))"
  by pat_completeness auto
termination
  by (relation "measure (\<lambda>(quits, st, i, n). n - i)") auto

declare publish_loop.simps [simp del]

text \<open>
  \<open>containerCallback\<close>: the container is stored in its slot (IndexError when the queue
  has no such slot), then the loop runs from the publish cursor. The thread identifier is
  used for a log line only.
\<close>

definition containerCallback ::
  "(nat \<Rightarrow> bool) \<Rightarrow> 'f runner \<Rightarrow> 'f container \<Rightarrow> 'f runner \<times> exn option" where
  "containerCallback quits st c =
     (if counter c < length (resultsQueue st)
      then publish_loop quits (st\<lparr>resultsQueue := (resultsQueue st)[counter c := Some c]\<rparr>)
             (resultsPointer st) (length (resultsQueue st))
      else (st, Some (OtherException ''IndexError'')))"

text \<open>
  Modelled from the spec: the thread pool (pysys.utils.threadpool) is not among the
  sources. It invokes the containers as plain callables and reports each completion
  through the callback; \<open>deliver\<close> runs the callbacks for the containers in the order in
  which they complete, one at a time, until one raises.
\<close>

fun deliver ::
  "(nat \<Rightarrow> bool) \<Rightarrow> 'f runner \<Rightarrow> 'f container list \<Rightarrow> 'f runner \<times> exn option" where
  "deliver quits st [] = (st, None)"
| "deliver quits st (c # cs) =
     (case containerCallback quits st c of
        (st', Some e) \<Rightarrow> (st', Some e)
      | (st', None) \<Rightarrow> deliver quits st' cs)"

text \<open>
  The runner at the end of the dispatch loop of a cycle over \<open>n\<close> descriptors, when the
  containers went to the pool: \<open>start\<close> has reset the cursor and the queue, created the
  results of the cycle, and appended an empty slot for every descriptor. The trace starts
  empty.
\<close>

definition begin_cycle :: "'f runner \<Rightarrow> nat \<Rightarrow> nat \<Rightarrow> 'f runner" where
  "begin_cycle st cyc n =
     st\<lparr>resultsPointer := 0, resultsQueue := replicate n None,
        results := (results st)(cyc := (\<lambda>oc. [])), published := []\<rparr>"

text \<open>The number of leading slots of a queue of length \<open>n\<close> whose containers are in \<open>S\<close>.\<close>

definition leading :: "nat set \<Rightarrow> nat \<Rightarrow> nat" where
  "leading S n = length (takeWhile (\<lambda>i. i \<in> S) [0..<n])"

text \<open>
  Invariants of the queue, for the proofs. A channel is active when the runner publishes
  on it at all; \<open>trace_upto st p\<close> says that every active channel (the prompt apart, which
  only interrupted containers reach) has published exactly the containers below \<open>p\<close>, in
  order; \<open>queue_ok n st\<close> is what every callback preserves.
\<close>

fun active :: "'f runner \<Rightarrow> channel \<Rightarrow> bool" where
  "active st Flush = (threads st > 1)"
| "active st Console = consoleWarn st"
| "active st TestComplete = True"
| "active st (Writer k) = (recordResults st \<and> k < length (writers st))"
| "active st Prompt = False"
| "active st Tally = True"

definition trace_upto :: "'f runner \<Rightarrow> nat \<Rightarrow> bool" where
  "trace_upto st p =
     (\<forall>ch. ch \<noteq> Prompt \<longrightarrow> on_channel ch (published st) = (if active st ch then [0..<p] else []))"

definition queue_ok :: "nat \<Rightarrow> 'f runner \<Rightarrow> bool" where
  "queue_ok n st =
     (length (resultsQueue st) = n
      \<and> (\<forall>j < n. \<forall>c. resultsQueue st ! j = Some c \<longrightarrow> counter c = j)
      \<and> trace_upto st (resultsPointer st))"

text \<open>Two runners with the same settings: threads, console, recording and writers.\<close>

definition same_settings :: "'f runner \<Rightarrow> 'f runner \<Rightarrow> bool" where
  "same_settings st st' =
     (threads st' = threads st \<and> recordResults st' = recordResults st
      \<and> writers st' = writers st \<and> purge st' = purge st
      \<and> consoleWarn st' = consoleWarn st)"

text \<open>
  A container that the loop body publishes without raising: it has a test object, and
  the operator does not quit at its prompt.
\<close>

definition publishable :: "(nat \<Rightarrow> bool) \<Rightarrow> 'f container \<Rightarrow> bool" where
  "publishable quits c = (testObj c \<noteq> None \<and> \<not> (kbrdInt c \<and> quits (counter c)))"

text \<open>
  The state of the queue when the containers with the counters in \<open>S\<close> have completed and
  the cursor is at \<open>p\<close>: every slot below the cursor belongs to a completed container, and
  the filled slots are those of the completed containers from the cursor on.
\<close>

definition loop_inv :: "(nat \<Rightarrow> bool) \<Rightarrow> nat \<Rightarrow> nat set \<Rightarrow> nat \<Rightarrow> 'f runner \<Rightarrow> bool" where
  "loop_inv quits n S p st =
     (queue_ok n st \<and> resultsPointer st = p \<and> p \<le> n
      \<and> (\<forall>j < p. j \<in> S)
      \<and> (\<forall>j < n. (resultsQueue st ! j = None) = (j \<notin> S \<or> j < p))
      \<and> (\<forall>j < n. \<forall>c. resultsQueue st ! j = Some c \<longrightarrow> publishable quits c))"

text \<open>
  An example: a runner with three worker threads that records to one writer, and the
  container of the \<open>i\<close>-th descriptor as a call that returned leaves it.
\<close>

definition example_runner :: "nat runner" where
  "example_runner =
     \<lparr> processList = [], processCount = Map.empty, cleanupFunctions = [],
       outcome = [], outcomeReason = '''', defaultAbortOnError = False,
       uniqueProcessKeys = Map.empty, outputDir = ''out'',
       consoleWarn = False, recordResults = True, purge = False, threads = 3,
       writers = [''results.xml''],
       duration = 0, results = (\<lambda>cyc oc. []), resultsPointer = 0, resultsQueue = [],
       published = [] \<rparr>"

definition example_container :: "nat \<Rightarrow> nat container" where
  "example_container i =
     (init_container i \<lparr>descriptorId = ''Test'', descriptorState = ''runnable'', modes = []\<rparr> 0)
       \<lparr>testObj := Some ((init_process_user False ''out'')\<lparr>outcome := [PASSED]\<rparr>),
        testTime := 0.25\<rparr>"

section \<open>The performance reporter (pysys/utils/perfreporter.py)\<close>

text \<open>
  An \<open>OrderedDict\<close> is a list of pairs with distinct keys, in insertion order: assigning
  to a key that is present replaces the value where it stands, assigning to a new key
  appends it. Two of them are equal when they hold the same pairs in the same order.
\<close>

fun dict_set :: "('k \<times> 'v) list \<Rightarrow> 'k \<Rightarrow> 'v \<Rightarrow> ('k \<times> 'v) list" where
  "dict_set [] k v = [(k, v)]"
| "dict_set ((k', v') # kvs) k v =
     (if k' = k then (k, v) # kvs else (k', v') # dict_set kvs k v)"

text \<open>\<open>collections.OrderedDict(pairs)\<close>: the pairs are assigned in order.\<close>

definition ordered_dict :: "('k \<times> 'v) list \<Rightarrow> ('k \<times> 'v) list" where
  "ordered_dict kvs = foldl (\<lambda>d (k, v). dict_set d k v) [] kvs"

record perf_unit =
  unitName :: string
  unitBiggerIsBetter :: bool

definition SECONDS :: perf_unit where
  "SECONDS = \<lparr>unitName = ''s'', unitBiggerIsBetter = False\<rparr>"

definition PER_SECOND :: perf_unit where
  "PER_SECOND = \<lparr>unitName = ''/s'', unitBiggerIsBetter = True\<rparr>"

subsection \<open>Python built-ins used by the reporter\<close>

text \<open>
  Strings are byte strings. \<open>s.replace(a, b)\<close> for single characters \<open>a\<close> and \<open>b\<close>;
  \<open>sep.join(items)\<close>; \<open>s.replace(old, new)\<close> for a non-empty \<open>old\<close> (the occurrences
  from left to right, without overlap); \<open>os.path.basename\<close> of posixpath.
\<close>

definition replace_char :: "char \<Rightarrow> char \<Rightarrow> string \<Rightarrow> string" where
  "replace_char a b s = map (\<lambda>c. if c = a then b else c) s"

fun join :: "string \<Rightarrow> string list \<Rightarrow> string" where
  "join sep [] = ''''"
| "join sep [v] = v"
| "join sep (v # w # vs) = v @ sep @ join sep (w # vs)"

function replace_all :: "string \<Rightarrow> string \<Rightarrow> string \<Rightarrow> string" where
  "replace_all old new [] = []"
| "replace_all old new (c # cs) =
     (if old \<noteq> [] \<and> take (length old) (c # cs) = old
      then new @ replace_all old new (drop (length old) (c # cs))
      else c # replace_all old new cs)"
  by pat_completeness auto
termination
  by (relation "measure (\<lambda>(old, new, s). length s)") auto

definition basename :: "string \<Rightarrow> string" where
  "basename p = rev (takeWhile (\<lambda>c. c \<noteq> CHR ''/'') (rev p))"

text \<open>
  \<open>repr\<close> of a byte string (Python 2): single quotes, unless the string holds a single
  quote and no double quote; the quote in use and the backslash are escaped with a
  backslash, tab, newline and carriage return are written \<open>\t \n \r\<close>, every other
  character below the space or from \<open>0x7f\<close> on is written \<open>\xNN\<close>. \<open>repr_items\<close> is
  \<open>str(list(d.items()))\<close> for an \<open>OrderedDict\<close> of strings: the \<open>repr\<close> of a list of
  pairs.
\<close>

definition hex_digit :: "nat \<Rightarrow> char" where
  "hex_digit n = ''0123456789abcdef'' ! (n mod 16)"

definition repr_char :: "char \<Rightarrow> char \<Rightarrow> string" where
  "repr_char quote c =
     (if c = quote \<or> c = CHR 0x5C then [CHR 0x5C, c]
      else if c = CHR 0x09 then [CHR 0x5C, CHR ''t'']
      else if c = CHR 0x0A then [CHR 0x5C, CHR ''n'']
      else if c = CHR 0x0D then [CHR 0x5C, CHR ''r'']
      else if (of_char c :: nat) < 32 \<or> 127 \<le> (of_char c :: nat)
        then [CHR 0x5C, CHR ''x'', hex_digit (of_char c div 16), hex_digit (of_char c mod 16)]
      else [c])"

definition repr_str :: "string \<Rightarrow> string" where
  "repr_str s =
     (let quote = (if CHR 0x27 \<in> set s \<and> CHR 0x22 \<notin> set s then CHR 0x22 else CHR 0x27)
      in quote # concat (map (repr_char quote) s) @ [quote])"

definition repr_items :: "(string \<times> string) list \<Rightarrow> string" where
  "repr_items kvs =
     ''['' @ join '', '' (map (\<lambda>(k, v). ''('' @ repr_str k @ '', '' @ repr_str v @ '')'') kvs)
     @ '']''"

text \<open>
  A number as \<open>reportResult\<close> sees it, by what the built-ins applied to it give:
  \<open>value > 1000\<close>, \<open>'{0:,}'.format(int(value))\<close>, \<open>'%0.4g' % value\<close>, \<open>'%f' % value\<close>
  and \<open>str(value)\<close>. The conversion to \<open>int\<close> and the two formats may raise (an infinity
  has no \<open>int\<close>, a value that is no number has no \<open>%g\<close>). Likewise any object by its truth
  value and its \<open>str\<close>.
\<close>

record py_number =
  above_1000 :: bool
  grouped_int :: "exn + string"
  format_4g :: "exn + string"
  format_f :: "exn + string"
  str_value :: string

record py_object =
  truth :: bool
  str_text :: string

subsection \<open>valueToDisplayString\<close>

text \<open>
  \<^verbatim>\<open>if value > 1000:
      return '{0:,}'.format(int(value))
  else:
      valtostr = '%0.4g' % value
      if 'e' in valtostr: valtostr = '%f'%value
      return valtostr\<close>
\<close>

definition valueToDisplayString :: "py_number \<Rightarrow> exn + string" where
  "valueToDisplayString v =
     (if above_1000 v then grouped_int v
      else (case format_4g v of
              Inl e \<Rightarrow> Inl e
            | Inr valtostr \<Rightarrow> if CHR ''e'' \<in> set valtostr then format_f v else Inr valtostr))"

subsection \<open>CSVPerformanceFile.toCSVLine\<close>

definition COLUMNS :: "string list" where
  "COLUMNS = [''resultKey'', ''testId'', ''value'', ''unit'', ''biggerIsBetter'',
              ''toleranceStdDevs'', ''samples'', ''stdDev'']"

definition RUN_DETAILS :: string where
  "RUN_DETAILS = ''#runDetails:#''"

definition RESULT_DETAILS :: string where
  "RESULT_DETAILS = ''#resultDetails:#''"

text \<open>
  A value of the list given to \<open>toCSVLine\<close> is a string or a dictionary (here of
  strings), which is expanded into its \<open>KEY=VALUE\<close> entries.
  \<^verbatim>\<open>for v in values:
      if isinstance(v, dict):
          for k in v:
              items.append('%s=%s'%(k.replace('=','-').strip(), str(v[k]).replace('=','-').strip()))
      else:
          items.append(v)
  return ','.join([v.replace(',', ';').replace('"', '_').strip() for v in items])\<close>
\<close>

datatype csv_value = Text string | Details "(string \<times> string) list"

fun expand_value :: "csv_value \<Rightarrow> string list" where
  "expand_value (Text s) = [s]"
| "expand_value (Details kvs) =
     map (\<lambda>(k, v). strip (replace_char CHR ''='' CHR ''-'' k) @ ''=''
                    @ strip (replace_char CHR ''='' CHR ''-'' v)) kvs"

definition toCSVLine_list :: "csv_value list \<Rightarrow> string" where
  "toCSVLine_list vals =
     join '',''
       (map (\<lambda>v. strip (replace_char (CHR 0x22) CHR ''_'' (replace_char CHR '','' CHR '';'' v)))
            (concat (map expand_value vals)))"

text \<open>
  The branch for a dictionary: the columns, then, when there are result details, the
  marker, the dictionary of the details and once more every detail as \<open>KEY=VALUE\<close>.
  \<^verbatim>\<open>l = []
  for k in CSVPerformanceFile.COLUMNS:
      l.append(str(values.get(k,'')))
  if values.get('resultDetails', None):
      l.append(CSVPerformanceFile.RESULT_DETAILS)
      l.append(values['resultDetails'])
      for k in values['resultDetails']:
          l.append('%s=%s'%(k, values['resultDetails'][k]))
  return CSVPerformanceFile.toCSVLine(l)\<close>
\<close>

definition toCSVLine_dict :: "(string \<rightharpoonup> string) \<Rightarrow> (string \<times> string) list \<Rightarrow> string" where
  "toCSVLine_dict vals details =
     (let l = map (\<lambda>k. Text (case vals k of None \<Rightarrow> '''' | Some v \<Rightarrow> v)) COLUMNS
      in toCSVLine_list
           (if details \<noteq> []
            then l @ [Text RESULT_DETAILS, Details details]
                   @ map (\<lambda>(k, v). Text (k @ ''='' @ v)) details
            else l))"

subsection \<open>reportResult\<close>

text \<open>Substring test, \<open>sub in s\<close>.\<close>

fun contains :: "string \<Rightarrow> string \<Rightarrow> bool" where
  "contains [] sub = (sub = [])"
| "contains (c # cs) sub = (take (length sub) (c # cs) = sub \<or> contains cs sub)"

definition is_digit :: "char \<Rightarrow> bool" where
  "is_digit c = (c \<in> set ''0123456789'')"

text \<open>
  The pattern \<open>\d{4}[-/]\d{2}[-/]\d{2}\ \d{2}[:/]\d{2}[:/]\d{2}\<close> at the start of a string,
  and \<open>re.match\<close> of it between two \<open>.*\<close>: the dot does not match a newline, so the
  pattern may start wherever no newline precedes it.
\<close>

definition datetime_at :: "string \<Rightarrow> bool" where
  "datetime_at s =
     (length s \<ge> 19
      \<and> is_digit (s ! 0) \<and> is_digit (s ! 1) \<and> is_digit (s ! 2) \<and> is_digit (s ! 3)
      \<and> (s ! 4 = CHR ''-'' \<or> s ! 4 = CHR ''/'')
      \<and> is_digit (s ! 5) \<and> is_digit (s ! 6)
      \<and> (s ! 7 = CHR ''-'' \<or> s ! 7 = CHR ''/'')
      \<and> is_digit (s ! 8) \<and> is_digit (s ! 9)
      \<and> s ! 10 = CHR '' ''
      \<and> is_digit (s ! 11) \<and> is_digit (s ! 12)
      \<and> (s ! 13 = CHR '':'' \<or> s ! 13 = CHR ''/'')
      \<and> is_digit (s ! 14) \<and> is_digit (s ! 15)
      \<and> (s ! 16 = CHR '':'' \<or> s ! 16 = CHR ''/'')
      \<and> is_digit (s ! 17) \<and> is_digit (s ! 18))"

fun datetime_match :: "string \<Rightarrow> bool" where
  "datetime_match [] = False"
| "datetime_match (c # cs) = (datetime_at (c # cs) \<or> (c \<noteq> CHR 0x0A \<and> datetime_match cs))"

text \<open>
  The checks of the (stripped) result key, in the order of the source; the result is the
  exception raised, if any, with its message.
\<close>

definition checkResultKey :: "string \<Rightarrow> exn option" where
  "checkResultKey k =
     (if contains k ''  ''
        then Some (OtherException
               (''Invalid resultKey - contains double space '' @ [CHR 0x22] @ ''  ''
                @ [CHR 0x22] @ '': '' @ k))
      else if datetime_match k
        then Some (OtherException
               (''Invalid resultKey - contains what appears to be a date time - which would ''
                @ ''imply alteration of the result key in each run: '' @ k))
      else if contains k [CHR 0x0A]
        then Some (OtherException (''Invalid resultKey - contains a new line: '' @ k))
      else if contains k ''%s'' \<or> contains k ''%d'' \<or> contains k ''%f''
        then Some (OtherException
               (''Invalid resultKey - contains unsubstituted % format string: '' @ k))
      else None)"

text \<open>
  The arguments \<open>value\<close> and \<open>unit\<close> as the caller may give them: a number or a string
  (converted by \<open>float\<close>, which is a parameter and raises ValueError where it is \<open>None\<close>),
  a unit object or the name of an alias (anything that is not a unit after the aliases
  fails the assertion).
\<close>

datatype value_arg = Number py_number | NumberString string

datatype unit_arg = UnitObject perf_unit | UnitName string

definition coerce_value :: "(string \<Rightarrow> py_number option) \<Rightarrow> value_arg \<Rightarrow> exn + py_number" where
  "coerce_value float_of v =
     (case v of
        Number x \<Rightarrow> Inr x
      | NumberString s \<Rightarrow>
          (case float_of s of None \<Rightarrow> Inl (OtherException ''ValueError'') | Some x \<Rightarrow> Inr x))"

definition unitAliases :: "string \<rightharpoonup> perf_unit" where
  "unitAliases = [''s'' \<mapsto> SECONDS, ''/s'' \<mapsto> PER_SECOND]"

definition resolve_unit :: "unit_arg \<Rightarrow> exn + perf_unit" where
  "resolve_unit u =
     (case u of
        UnitObject pu \<Rightarrow> Inr pu
      | UnitName s \<Rightarrow>
          (case unitAliases s of
             Some pu \<Rightarrow> Inr pu
           | None \<Rightarrow> Inl (OtherException ''AssertionError'')))"

text \<open>
  The test object as the reporter uses it: a \<open>ProcessUser\<close> with the id of its descriptor
  and its \<open>hash\<close>. The reporter: the keys reported so far, each with the test id, the hash
  of the test object and the result details (with the test id added) of the first report;
  the run details; the pattern of the summary file, the output directory of the run, the
  host name, the date and the time of the start of the run as \<open>time.strftime\<close> gives
  them with \<open>%Y-%m-%d\<close> and \<open>%H.%M.%S\<close>, and the root directory of the project. The
  files are a map from path to contents; opening a file for writing or appending and
  creating the directory of the summary file are taken to succeed.
\<close>

record 'f test_object = "'f process_user" +
  testDescriptorId :: string
  objectHash :: nat

record reporter =
  previousResultKeys :: "string \<rightharpoonup> (string \<times> nat \<times> (string \<times> string) list)"
  runDetails :: "(string \<times> string) list"
  summaryfile :: string
  testoutdir :: string
  hostname :: string
  runDate :: string
  runTime :: string
  projectRoot :: string

text \<open>
  \<^verbatim>\<open>summaryfile = self.summaryfile or 'performance_output/@OUTDIR@_@HOSTNAME@/perf_@DATE@_@TIME@.csv'
  summaryfile = summaryfile\
      .replace('@OUTDIR@', os.path.basename(self.testoutdir)) \
      .replace('@HOSTNAME@', self.hostname) \
      .replace('@DATE@', time.strftime('%Y-%m-%d', time.gmtime(self.runStartTime))) \
      .replace('@TIME@', time.strftime('%H.%M.%S', time.gmtime(self.runStartTime))) \
      .replace('@TESTID@', testobj.descriptor.id)
  assert summaryfile, repr(getRunSummaryFile)
  summaryfile = os.path.join(self.project.root, summaryfile)\<close>
  When the assertion fails its message is evaluated, and the name \<open>getRunSummaryFile\<close> is
  not defined there: a NameError is raised.
\<close>

definition getRunSummaryFile :: "reporter \<Rightarrow> 'f test_object \<Rightarrow> exn + string" where
  "getRunSummaryFile rep t =
     (let s0 = (if summaryfile rep \<noteq> '''' then summaryfile rep
                else ''performance_output/@OUTDIR@_@HOSTNAME@/perf_@DATE@_@TIME@.csv'');
          s1 = replace_all ''@OUTDIR@'' (basename (testoutdir rep)) s0;
          s2 = replace_all ''@HOSTNAME@'' (hostname rep) s1;
          s3 = replace_all ''@DATE@'' (runDate rep) s2;
          s4 = replace_all ''@TIME@'' (runTime rep) s3;
          s5 = replace_all ''@TESTID@'' (testDescriptorId t) s4
      in if s5 = '''' then Inl (OtherException ''NameError'')
         else Inr (path_join (projectRoot rep) s5))"

text \<open>
  \<^verbatim>\<open>return '# '+CSVPerformanceFile.toCSVLine(
      CSVPerformanceFile.COLUMNS+[CSVPerformanceFile.RUN_DETAILS, self.__runDetails])+'\n'\<close>
\<close>

definition getRunHeader :: "reporter \<Rightarrow> string" where
  "getRunHeader rep =
     ''# '' @ toCSVLine_list (map Text COLUMNS @ [Text RUN_DETAILS, Details (runDetails rep)])
     @ [CHR 0x0A]"

text \<open>
  \<^verbatim>\<open>data = {'resultKey':resultKey, 'testId':testobj.descriptor.id, 'value':str(value),
      'unit':str(unit), 'biggerIsBetter':str(unit.biggerIsBetter).upper(),
      'toleranceStdDevs':str(toleranceStdDevs) if toleranceStdDevs else '',
      'samples':'1', 'stdDev':'0', 'resultDetails':resultDetails}
  return CSVPerformanceFile.toCSVLine(data)+'\n'\<close>
\<close>

definition formatResult ::
  "'f test_object \<Rightarrow> py_number \<Rightarrow> string \<Rightarrow> perf_unit \<Rightarrow> py_object \<Rightarrow> (string \<times> string) list
     \<Rightarrow> string" where
  "formatResult t v key pu tol details =
     toCSVLine_dict
       [''resultKey'' \<mapsto> key, ''testId'' \<mapsto> testDescriptorId t, ''value'' \<mapsto> str_value v,
        ''unit'' \<mapsto> unitName pu,
        ''biggerIsBetter'' \<mapsto> (if unitBiggerIsBetter pu then ''TRUE'' else ''FALSE''),
        ''toleranceStdDevs'' \<mapsto> (if truth tol then str_text tol else ''''),
        ''samples'' \<mapsto> ''1'', ''stdDev'' \<mapsto> ''0'']
       details
     @ [CHR 0x0A]"

text \<open>
  \<open>recordResult\<close>: the file in the output directory of the test, with the header when
  the file is new, then the summary file likewise. The result is the files and the
  exception raised, if any (by \<open>getRunSummaryFile\<close>, after the first file was written).
  \<^verbatim>\<open>path = testobj.output+'/performance_results.csv'
  if not os.path.exists(path):
      with open(path, 'w') as f:
          f.write(self.getRunHeader())
  with open(path, 'a') as f:
      f.write(formatted)
  path = self.getRunSummaryFile(testobj)
  mkdir(os.path.dirname(path))
  with self._lock:
      alreadyexists = os.path.exists(path)
      with open(path, 'a') as f:
          if not alreadyexists:
              f.write(self.getRunHeader())
          f.write(formatted)\<close>
\<close>

definition append_to_file :: "(string \<rightharpoonup> string) \<Rightarrow> string \<Rightarrow> string \<Rightarrow> string \<Rightarrow> (string \<rightharpoonup> string)" where
  "append_to_file files path header data =
     files(path \<mapsto> (case files path of None \<Rightarrow> header @ data | Some c \<Rightarrow> c @ data))"

definition recordResult ::
  "reporter \<Rightarrow> (string \<rightharpoonup> string) \<Rightarrow> string \<Rightarrow> 'f test_object
     \<Rightarrow> (string \<rightharpoonup> string) \<times> exn option" where
  "recordResult rep files formatted t =
     (let files1 = append_to_file files (outputDir t @ ''/performance_results.csv'')
                     (getRunHeader rep) formatted
      in case getRunSummaryFile rep t of
           Inl e \<Rightarrow> (files1, Some e)
         | Inr path \<Rightarrow> (append_to_file files1 path (getRunHeader rep) formatted, None))"

text \<open>
  \<open>reportResult\<close>. The result is the reporter, the files and the test object as the call
  leaves them, and the exception that leaves the call, if any. The result details are
  given as a list of pairs (\<open>None\<close> as the empty list, an \<open>OrderedDict\<close> as its items).
  Of the log lines only the call of \<open>valueToDisplayString\<close> for the first one is part of
  the model: it may raise.
  \<^verbatim>\<open>resultKey = resultKey.strip()
  ... (the checks of the key)
  if isinstance(value, basestring): value = float(value)
  if unit in self.unitAliases: unit = self.unitAliases[unit]
  assert isinstance(unit, PerformanceUnit), repr(unit)
  resultDetails = resultDetails or []
  if isinstance(resultDetails, list):
      resultDetails = collections.OrderedDict(resultDetails)
  testobj.log.info("> Reported performance result: %s = %s %s (%s)", resultKey,
      self.valueToDisplayString(value), unit, ...)
  with self._lock:
      prevresult = self.__previousResultKeys.get(resultKey, None)
      d = collections.OrderedDict(resultDetails)
      d['testId'] = testobj.descriptor.id
      if prevresult:
          if prevresult[1] == hash(testobj):
              testobj.addOutcome(BLOCKED, 'Cannot report performance result as resultKey was already used by this test: "%s"'%(resultKey))
              return
          if prevresult[0] != testobj.descriptor.id or prevresult[2] != d:
              testobj.addOutcome(BLOCKED, 'Cannot report performance result as resultKey was already used - resultKey must be unique across all tests and modes: "%s" (already used by %s)'%(resultKey, list(prevresult[2].items())))
              return
      else:
          self.__previousResultKeys[resultKey] = (testobj.descriptor.id, hash(testobj), d)
  if testobj.getOutcome() in FAILS:
      return
  formatted = self.formatResult(testobj, value, resultKey, unit, toleranceStdDevs, resultDetails)
  self.recordResult(formatted, testobj)\<close>
\<close>

definition reportResult ::
  "outcome list \<Rightarrow> (string \<Rightarrow> py_number option) \<Rightarrow> reporter \<Rightarrow> (string \<rightharpoonup> string)
     \<Rightarrow> 'f test_object \<Rightarrow> value_arg \<Rightarrow> string \<Rightarrow> unit_arg \<Rightarrow> py_object
     \<Rightarrow> (string \<times> string) list
     \<Rightarrow> reporter \<times> (string \<rightharpoonup> string) \<times> 'f test_object \<times> exn option" where
  "reportResult FAILS float_of rep files t v key0 u tol details0 =
     (let key = strip key0 in
      case checkResultKey key of
        Some e \<Rightarrow> (rep, files, t, Some e)
      | None \<Rightarrow>
      (case coerce_value float_of v of
        Inl e \<Rightarrow> (rep, files, t, Some e)
      | Inr x \<Rightarrow>
      (case resolve_unit u of
        Inl e \<Rightarrow> (rep, files, t, Some e)
      | Inr pu \<Rightarrow>
      (case valueToDisplayString x of
        Inl e \<Rightarrow> (rep, files, t, Some e)
      | Inr shown \<Rightarrow>
      (let details = ordered_dict details0;
           d = dict_set details ''testId'' (testDescriptorId t);
           record_it = (\<lambda>rep'.
             if getOutcome t \<in> set FAILS then (rep', files, t, None)
             else (case recordResult rep' files (formatResult t x key pu tol details) t of
                     (files', e) \<Rightarrow> (rep', files', t, e)))
       in case previousResultKeys rep key of
            Some (tid0, hash0, d0) \<Rightarrow>
              if hash0 = objectHash t
              then (case addOutcome FAILS t BLOCKED
                           (''Cannot report performance result as resultKey was already ''
                            @ ''used by this test: '' @ [CHR 0x22] @ key @ [CHR 0x22]) None of
                      (t', e) \<Rightarrow> (rep, files, t', e))
              else if tid0 \<noteq> testDescriptorId t \<or> d0 \<noteq> d
              then (case addOutcome FAILS t BLOCKED
                           (''Cannot report performance result as resultKey was already ''
                            @ ''used - resultKey must be unique across all tests and modes: ''
                            @ [CHR 0x22] @ key @ [CHR 0x22]
                            @ '' (already used by '' @ repr_items d0 @ '')'') None of
                      (t', e) \<Rightarrow> (rep, files, t', e))
              else record_it rep
          | None \<Rightarrow>
              record_it (rep\<lparr>previousResultKeys :=
                (previousResultKeys rep)(key \<mapsto> (testDescriptorId t, objectHash t, d))\<rparr>))))))"

text \<open>
  An example: a fresh reporter of a run on the host \<open>host\<close> with the output directory
  \<open>linux\<close>, the test object of a test with a given id and hash (one object per cycle),
  and the numbers 10 and 12.5 with a tolerance that is not given.
\<close>

definition example_reporter :: reporter where
  "example_reporter =
     \<lparr> previousResultKeys = Map.empty,
       runDetails = [(''outdir'', ''linux''), (''hostname'', ''host''),
                     (''time'', ''2018-01-01 00:00:00'')],
       summaryfile = '''', testoutdir = ''linux'', hostname = ''host'',
       runDate = ''2018-01-01'', runTime = ''00.00.00'', projectRoot = ''/proj'' \<rparr>"

definition example_test :: "string \<Rightarrow> nat \<Rightarrow> nat test_object" where
  "example_test tid h =
     \<lparr> processList = [], processCount = Map.empty, cleanupFunctions = [],
       outcome = [], outcomeReason = '''', defaultAbortOnError = False,
       uniqueProcessKeys = Map.empty, outputDir = ''out'',
       testDescriptorId = tid, objectHash = h \<rparr>"

definition example_10 :: py_number where
  "example_10 = \<lparr> above_1000 = False, grouped_int = Inr ''10'', format_4g = Inr ''10'',
                  format_f = Inr ''10.000000'', str_value = ''10'' \<rparr>"

definition example_12_5 :: py_number where
  "example_12_5 = \<lparr> above_1000 = False, grouped_int = Inr ''12'', format_4g = Inr ''12.5'',
                    format_f = Inr ''12.500000'', str_value = ''12.5'' \<rparr>"

definition py_None :: py_object where
  "py_None = \<lparr> truth = False, str_text = ''None'' \<rparr>"

section \<open>Properties\<close>

lemma outcome_in_PRECEDENT: "oc \<in> set PRECEDENT"
  by (cases oc) (simp_all add: PRECEDENT_def)

lemma list_index_less: "x \<in> set xs \<Longrightarrow> list_index xs x < length xs"
  by (induction xs) auto

lemma list_index_nth: "x \<in> set xs \<Longrightarrow> xs ! list_index xs x = x"
  by (induction xs) auto

lemma list_index_inj:
  "x \<in> set xs \<Longrightarrow> y \<in> set xs \<Longrightarrow> list_index xs x = list_index xs y \<Longrightarrow> x = y"
  by (metis list_index_nth)

lemma precedence_inj:
  "list_index PRECEDENT a = list_index PRECEDENT b \<Longrightarrow> a = b"
  by (rule list_index_inj) (simp_all add: outcome_in_PRECEDENT)

lemma sort_key_not_Nil: "xs \<noteq> [] \<Longrightarrow> sort_key f xs \<noteq> []"
  by (metis length_sort length_0_conv)

lemma hd_sort_key_mem: "xs \<noteq> [] \<Longrightarrow> hd (sort_key f xs) \<in> set xs"
  by (metis hd_in_set set_sort sort_key_not_Nil)

lemma hd_sort_key_le:
  assumes "x \<in> set xs"
  shows "f (hd (sort_key f xs)) \<le> f x"
proof -
  let ?ys = "sort_key f xs"
  from assms have "xs \<noteq> []" by auto
  then have ne: "?ys \<noteq> []" by (rule sort_key_not_Nil)
  have srt: "sorted (map f ?ys)" by (rule sorted_sort_key)
  from assms have "x \<in> set ?ys" by simp
  then have "f x \<in> set (map f ?ys)" by auto
  moreover from ne have "map f ?ys = f (hd ?ys) # map f (tl ?ys)"
    by (cases ?ys) simp_all
  ultimately show ?thesis using srt
    by (metis order_refl set_ConsD sorted_simps(2))
qed

text \<open>
  C2. For every state of a ProcessUser, getOutcome returns NOTVERIFIED when the outcome
  list is empty, and otherwise the member of the outcome list whose index in the precedence
  order SKIPPED, BLOCKED, DUMPEDCORE, TIMEDOUT, FAILED, NOTVERIFIED, INSPECT, PASSED is
  minimal (that member is unique, since the index determines the outcome).
\<close>

theorem getOutcome_min_precedence:
  "PRECEDENT = [SKIPPED, BLOCKED, DUMPEDCORE, TIMEDOUT, FAILED, NOTVERIFIED, INSPECT, PASSED]
   \<and> (outcome st = [] \<longrightarrow> getOutcome st = NOTVERIFIED)
   \<and> (outcome st \<noteq> [] \<longrightarrow>
        getOutcome st \<in> set (outcome st)
        \<and> (\<forall>oc \<in> set (outcome st).
              list_index PRECEDENT (getOutcome st) \<le> list_index PRECEDENT oc)
        \<and> (\<forall>w \<in> set (outcome st).
              (\<forall>oc \<in> set (outcome st). list_index PRECEDENT w \<le> list_index PRECEDENT oc)
              \<longrightarrow> w = getOutcome st))"
proof (intro conjI impI)
  show "PRECEDENT = [SKIPPED, BLOCKED, DUMPEDCORE, TIMEDOUT, FAILED, NOTVERIFIED, INSPECT, PASSED]"
    by (rule PRECEDENT_def)
next
  assume "outcome st = []"
  then show "getOutcome st = NOTVERIFIED" by (simp add: getOutcome_def)
next
  assume ne: "outcome st \<noteq> []"
  then show mem: "getOutcome st \<in> set (outcome st)"
    by (simp add: getOutcome_def hd_sort_key_mem)
  from ne show le: "\<forall>oc \<in> set (outcome st).
      list_index PRECEDENT (getOutcome st) \<le> list_index PRECEDENT oc"
    by (simp add: getOutcome_def hd_sort_key_le)
  show "\<forall>w \<in> set (outcome st).
      (\<forall>oc \<in> set (outcome st). list_index PRECEDENT w \<le> list_index PRECEDENT oc)
      \<longrightarrow> w = getOutcome st"
  proof (intro ballI impI)
    fix w assume w: "w \<in> set (outcome st)"
      and wmin: "\<forall>oc \<in> set (outcome st). list_index PRECEDENT w \<le> list_index PRECEDENT oc"
    from wmin mem have "list_index PRECEDENT w \<le> list_index PRECEDENT (getOutcome st)" by blast
    moreover from le w have "list_index PRECEDENT (getOutcome st) \<le> list_index PRECEDENT w" by blast
    ultimately show "w = getOutcome st" by (intro precedence_inj) simp
  qed
qed

theorem getOutcome_min_precedence_witness:
  "outcome ((init_process_user False ''out'' :: nat process_user)
       \<lparr>outcome := [PASSED, FAILED, BLOCKED, FAILED]\<rparr>) \<noteq> []
   \<and> getOutcome ((init_process_user False ''out'' :: nat process_user)
       \<lparr>outcome := [PASSED, FAILED, BLOCKED, FAILED]\<rparr>) = BLOCKED
   \<and> getOutcome (init_process_user False ''out'' :: nat process_user) = NOTVERIFIED"
proof -
  let ?st = "(init_process_user False ''out'' :: nat process_user)
       \<lparr>outcome := [PASSED, FAILED, BLOCKED, FAILED]\<rparr>"
  let ?emp = "init_process_user False ''out'' :: nat process_user"
  have ne: "outcome ?st \<noteq> []" by simp
  have e: "outcome ?emp = []" by (simp add: init_process_user_def)
  from getOutcome_min_precedence [of ?st] ne
  have mem: "getOutcome ?st \<in> set (outcome ?st)"
    and le: "\<forall>oc \<in> set (outcome ?st).
           list_index PRECEDENT (getOutcome ?st) \<le> list_index PRECEDENT oc"
    by blast+
  from le have "list_index PRECEDENT (getOutcome ?st) \<le> list_index PRECEDENT BLOCKED"
    by simp
  then have "list_index PRECEDENT (getOutcome ?st) \<le> 1"
    by (simp add: PRECEDENT_def)
  moreover from mem have "getOutcome ?st = PASSED \<or> getOutcome ?st = FAILED
      \<or> getOutcome ?st = BLOCKED"
    by auto
  ultimately have "getOutcome ?st = BLOCKED"
    by (auto simp: PRECEDENT_def)
  moreover from getOutcome_min_precedence [of ?emp] e have "getOutcome ?emp = NOTVERIFIED"
    by blast
  ultimately show ?thesis using ne by blast
qed

subsection \<open>Unique names for stdout and stderr\<close>

lemma format_d_1: "format_d 1 = ''1''"
  by (simp add: format_d_def string_of_nat.simps [of "Suc 0"] digit_char_def)

lemma format_d_2: "format_d 2 = ''2''"
  by (simp add: format_d_def string_of_nat.simps [of 2] digit_char_def)

text \<open>
  C3. On a fresh ProcessUser the first call of allocateUniqueStdOutErr with a key returns
  the paths of \<open>key.out\<close> and \<open>key.err\<close> in the output directory; the second call with
  the same key returns those of \<open>key.1.out\<close> and \<open>key.1.err\<close>: the counter stored for a
  key starts at 0 and the suffix is the counter itself, so the second call uses \<open>.1\<close>.
  The keys key, key, key, keyb give \<open>key.out, key.1.out, key.2.out, keyb.out\<close>.
\<close>

theorem allocateUniqueStdOutErr_second_call:
  "snd (allocateUniqueStdOutErr (init_process_user a d :: 'f process_user) k)
     = (path_join d (k @ ''.out''), path_join d (k @ ''.err''))
   \<and> snd (allocateUniqueStdOutErr
            (fst (allocateUniqueStdOutErr (init_process_user a d :: 'f process_user) k)) k)
     = (path_join d (k @ ''.1.out''), path_join d (k @ ''.1.err''))
   \<and> snd (allocateUniqueStdOutErr
            (fst (allocateUniqueStdOutErr (init_process_user a ''out'' :: 'f process_user) ''key''))
            ''key'')
     = (''out/key.1.out'', ''out/key.1.err'')
   \<and> map fst (allocate_seq (init_process_user a ''out'' :: 'f process_user)
            [''key'', ''key'', ''key'', ''keyb''])
     = [''out/key.out'', ''out/key.1.out'', ''out/key.2.out'', ''out/keyb.out'']"
  by (simp add: allocateUniqueStdOutErr_def init_process_user_def Let_def format_d_1 format_d_2
      path_join_def)

subsection \<open>Outcome reasons\<close>
lemma getOutcome_Nil: "outcome st = [] \<Longrightarrow> getOutcome st = NOTVERIFIED"
  by (simp add: getOutcome_def)

lemma getOutcome_mem: "outcome st \<noteq> [] \<Longrightarrow> getOutcome st \<in> set (outcome st)"
  by (simp add: getOutcome_def hd_sort_key_mem)

lemma getOutcome_le:
  "oc \<in> set (outcome st) \<Longrightarrow> list_index PRECEDENT (getOutcome st) \<le> list_index PRECEDENT oc"
  by (auto simp add: getOutcome_def hd_sort_key_le)

lemma getOutcome_unique:
  assumes "w \<in> set (outcome st)"
    and "\<forall>oc \<in> set (outcome st). list_index PRECEDENT w \<le> list_index PRECEDENT oc"
  shows "getOutcome st = w"
proof -
  from assms(1) have ne: "outcome st \<noteq> []" by auto
  from assms(2) getOutcome_mem [OF ne]
  have "list_index PRECEDENT w \<le> list_index PRECEDENT (getOutcome st)" by blast
  moreover from getOutcome_le [OF assms(1)]
  have "list_index PRECEDENT (getOutcome st) \<le> list_index PRECEDENT w" .
  ultimately show ?thesis by (intro precedence_inj) simp
qed

lemma getOutcome_append:
  assumes "outcome st \<noteq> []"
  shows "getOutcome (st\<lparr>outcome := outcome st @ [oc]\<rparr>) =
     (if list_index PRECEDENT oc < list_index PRECEDENT (getOutcome st) then oc else getOutcome st)"
proof (cases "list_index PRECEDENT oc < list_index PRECEDENT (getOutcome st)")
  case True
  have "getOutcome (st\<lparr>outcome := outcome st @ [oc]\<rparr>) = oc"
  proof (rule getOutcome_unique)
    show "oc \<in> set (outcome (st\<lparr>outcome := outcome st @ [oc]\<rparr>))" by simp
    show "\<forall>x \<in> set (outcome (st\<lparr>outcome := outcome st @ [oc]\<rparr>)).
        list_index PRECEDENT oc \<le> list_index PRECEDENT x"
      using True getOutcome_le [of _ st] by fastforce
  qed
  with True show ?thesis by simp
next
  case False
  have "getOutcome (st\<lparr>outcome := outcome st @ [oc]\<rparr>) = getOutcome st"
  proof (rule getOutcome_unique)
    show "getOutcome st \<in> set (outcome (st\<lparr>outcome := outcome st @ [oc]\<rparr>))"
      using getOutcome_mem [OF assms] by simp
    show "\<forall>x \<in> set (outcome (st\<lparr>outcome := outcome st @ [oc]\<rparr>)).
        list_index PRECEDENT (getOutcome st) \<le> list_index PRECEDENT x"
      using False getOutcome_le [of _ st] by fastforce
  qed
  with False show ?thesis by simp
qed

lemma getOutcome_single: "getOutcome (st\<lparr>outcome := [oc]\<rparr>) = oc"
  by (simp add: getOutcome_def)

lemma addOutcome_outcome: "outcome (fst (addOutcome F st oc r ab)) = outcome st @ [oc]"
  by (simp add: addOutcome_def Let_def)

lemma addOutcome_reason:
  "outcomeReason (fst (addOutcome F st oc r ab)) =
     (if getOutcome (st\<lparr>outcome := outcome st @ [oc]\<rparr>) \<noteq> getOutcome st
      then stored_reason r else outcomeReason st)"
  by (simp add: addOutcome_def Let_def stored_reason_def)

lemma getOutcome_cong: "outcome a = outcome b \<Longrightarrow> getOutcome a = getOutcome b"
  by (simp add: getOutcome_def)

lemma addOutcomes_snoc:
  "addOutcomes F st (cs @ [c]) =
     fst (addOutcome F (addOutcomes F st cs) (fst c) (fst (snd c)) (snd (snd c)))"
proof (induction F st cs rule: addOutcomes.induct)
  case (1 FAILS st)
  then show ?case by (cases c) auto
next
  case (2 FAILS st oc reason ab cs)
  then show ?case by simp
qed

lemma addOutcomes_outcome: "outcome (addOutcomes F st cs) = outcome st @ map fst cs"
  by (induction F st cs rule: addOutcomes.induct) (simp_all add: addOutcome_outcome)

lemma reason_given_snoc:
  "reason_given oc (cs @ [c]) =
     (case reason_given oc cs of
        Some r \<Rightarrow> Some r
      | None \<Rightarrow> if fst c = oc then Some (stored_reason (fst (snd c))) else None)"
proof (induction oc cs rule: reason_given.induct)
  case (1 oc)
  then show ?case by (cases c) auto
next
  case (2 oc oc' reason ab cs)
  then show ?case by simp
qed

lemma reason_given_None: "reason_given oc cs = None \<longleftrightarrow> oc \<notin> fst ` set cs"
  by (induction oc cs rule: reason_given.induct) auto

lemma addOutcomes_reason_invariant:
  assumes "cs \<noteq> []"
    and "\<not> (fst (hd cs) = NOTVERIFIED
            \<and> getOutcome (addOutcomes F (init_process_user a d :: 'f process_user) cs) = NOTVERIFIED)"
  shows "reason_given (getOutcome (addOutcomes F (init_process_user a d :: 'f process_user) cs)) cs
      = Some (outcomeReason (addOutcomes F (init_process_user a d :: 'f process_user) cs))"
  using assms
proof (induction cs rule: rev_induct)
  case Nil
  then show ?case by simp
next
  case (snoc c cs)
  let ?init = "init_process_user a d :: 'f process_user"
  let ?st = "addOutcomes F ?init cs"
  let ?st' = "addOutcomes F ?init (cs @ [c])"
  let ?app = "?st\<lparr>outcome := outcome ?st @ [fst c]\<rparr>"
  have oc: "outcome ?st = map fst cs"
    by (simp add: addOutcomes_outcome init_process_user_def)
  have st': "?st' = fst (addOutcome F ?st (fst c) (fst (snd c)) (snd (snd c)))"
    by (rule addOutcomes_snoc)
  have g': "getOutcome ?st' = getOutcome ?app"
    by (rule getOutcome_cong) (simp add: st' addOutcome_outcome)
  have r': "outcomeReason ?st' =
      (if getOutcome ?app \<noteq> getOutcome ?st then stored_reason (fst (snd c)) else outcomeReason ?st)"
    by (simp add: st' addOutcome_reason)
  show ?case
  proof (cases "cs = []")
    case True
    then have "outcome ?st = []" using oc by simp
    then have g0: "getOutcome ?st = NOTVERIFIED" by (rule getOutcome_Nil)
    have "outcome ?app = [fst c]" using \<open>outcome ?st = []\<close> by simp
    then have g1: "getOutcome ?app = fst c" by (simp add: getOutcome_def)
    from g' g1 have g2: "getOutcome ?st' = fst c" by simp
    from True have "hd (cs @ [c]) = c" by simp
    with snoc.prems(2) g2 have "fst c \<noteq> NOTVERIFIED" by metis
    with g0 g1 r' have "outcomeReason ?st' = stored_reason (fst (snd c))" by simp
    moreover have "reason_given (fst c) (cs @ [c]) = Some (stored_reason (fst (snd c)))"
      using True by (cases c) auto
    ultimately show ?thesis using g' g1 by simp
  next
    case False
    then have ne: "outcome ?st \<noteq> []" using oc by simp
    have hd_eq: "hd (cs @ [c]) = hd cs" using False by simp
    have app: "getOutcome ?app =
        (if list_index PRECEDENT (fst c) < list_index PRECEDENT (getOutcome ?st)
         then fst c else getOutcome ?st)"
      by (rule getOutcome_append [OF ne])
    show ?thesis
    proof (cases "list_index PRECEDENT (fst c) < list_index PRECEDENT (getOutcome ?st)")
      case True
      with app have g1: "getOutcome ?app = fst c" by simp
      from True have neq: "fst c \<noteq> getOutcome ?st" by auto
      have "fst c \<notin> set (outcome ?st)"
        using True getOutcome_le [of "fst c" ?st] by auto
      then have "fst c \<notin> fst ` set cs" using oc by simp
      then have "reason_given (fst c) cs = None" by (simp add: reason_given_None)
      then have "reason_given (fst c) (cs @ [c]) = Some (stored_reason (fst (snd c)))"
        by (simp add: reason_given_snoc)
      moreover from r' g1 neq have "outcomeReason ?st' = stored_reason (fst (snd c))" by simp
      ultimately show ?thesis using g' g1 by simp
    next
      case nless: False
      with app have g1: "getOutcome ?app = getOutcome ?st" by simp
      with r' have r1: "outcomeReason ?st' = outcomeReason ?st" by simp
      from snoc.prems(2) hd_eq g' g1
      have "\<not> (fst (hd cs) = NOTVERIFIED \<and> getOutcome ?st = NOTVERIFIED)" by simp
      with snoc.IH False
      have ih: "reason_given (getOutcome ?st) cs = Some (outcomeReason ?st)" by simp
      then have "reason_given (getOutcome ?st) (cs @ [c]) = Some (outcomeReason ?st)"
        by (simp add: reason_given_snoc)
      then show ?thesis using g' g1 r1 by simp
    qed
  qed
qed

lemma addOutcome_reason_unchanged:
  assumes "outcome st \<noteq> []"
    and "list_index PRECEDENT (getOutcome st) \<le> list_index PRECEDENT oc"
  shows "outcomeReason (fst (addOutcome F st oc r ab)) = outcomeReason st"
  using assms by (simp add: addOutcome_reason getOutcome_append)


text \<open>
  C4 (amended). For a ProcessUser whose outcomes were all added through addOutcome, unless
  NOTVERIFIED was the first outcome added and is still the overall outcome: the stored
  outcome reason is the (stripped) reason given with the first call that added the current
  overall outcome. And adding to a non-empty outcome list an outcome whose precedence is
  lower than or equal to that of the current overall outcome leaves the stored reason
  unchanged.
\<close>

theorem addOutcome_reason_of_overall_outcome:
  "(cs \<noteq> []
      \<and> \<not> (fst (hd cs) = NOTVERIFIED
             \<and> getOutcome (addOutcomes F (init_process_user a d :: 'f process_user) cs) = NOTVERIFIED)
      \<longrightarrow> reason_given (getOutcome (addOutcomes F (init_process_user a d :: 'f process_user) cs)) cs
            = Some (getOutcomeReason (addOutcomes F (init_process_user a d :: 'f process_user) cs)))
   \<and> (outcome st \<noteq> []
        \<and> list_index PRECEDENT (getOutcome st) \<le> list_index PRECEDENT oc
      \<longrightarrow> getOutcomeReason (fst (addOutcome F st oc r ab)) = getOutcomeReason st)"
  unfolding getOutcomeReason_def
  using addOutcomes_reason_invariant [of cs F a d] addOutcome_reason_unchanged [of st oc F r ab]
  by blast

lemma strip_boom: "stored_reason '' boom '' = ''boom''"
  by (simp add: stored_reason_def strip_def isspace_def)

theorem addOutcome_reason_of_overall_outcome_witness:
  "getOutcome (addOutcomes [BLOCKED, DUMPEDCORE, FAILED, TIMEDOUT]
       (init_process_user False ''out'' :: nat process_user)
       [(PASSED, ''ok'', None), (FAILED, '' boom '', Some False), (FAILED, ''later'', Some False)])
     = FAILED
   \<and> getOutcomeReason (addOutcomes [BLOCKED, DUMPEDCORE, FAILED, TIMEDOUT]
       (init_process_user False ''out'' :: nat process_user)
       [(PASSED, ''ok'', None), (FAILED, '' boom '', Some False), (FAILED, ''later'', Some False)])
     = ''boom''
   \<and> getOutcomeReason (fst (addOutcome [BLOCKED, DUMPEDCORE, FAILED, TIMEDOUT]
       (addOutcomes [BLOCKED, DUMPEDCORE, FAILED, TIMEDOUT]
          (init_process_user False ''out'' :: nat process_user)
          [(PASSED, ''ok'', None), (FAILED, '' boom '', Some False), (FAILED, ''later'', Some False)])
       INSPECT ''look'' None))
     = ''boom''"
proof -
  let ?F = "[BLOCKED, DUMPEDCORE, FAILED, TIMEDOUT]"
  let ?cs = "[(PASSED, ''ok'', None), (FAILED, '' boom '', Some False),
              (FAILED, ''later'', Some False)] :: (outcome \<times> string \<times> bool option) list"
  let ?s = "addOutcomes ?F (init_process_user False ''out'' :: nat process_user) ?cs"
  have oc: "outcome ?s = [PASSED, FAILED, FAILED]"
    unfolding addOutcomes_outcome by (simp add: init_process_user_def)
  have g: "getOutcome ?s = FAILED"
    by (simp add: getOutcome_def oc PRECEDENT_def del: addOutcomes.simps)
  have h1: "?cs \<noteq> []" by simp
  have h2: "\<not> (fst (hd ?cs) = NOTVERIFIED \<and> getOutcome ?s = NOTVERIFIED)" by simp
  have h3: "outcome ?s \<noteq> []" by (simp add: oc del: addOutcomes.simps)
  have h4: "list_index PRECEDENT (getOutcome ?s) \<le> list_index PRECEDENT INSPECT"
    by (simp add: g PRECEDENT_def del: addOutcomes.simps)
  note inst = addOutcome_reason_of_overall_outcome
    [of ?cs ?F False "''out''" ?s INSPECT "''look''" None]
  from inst h1 h2 have "reason_given (getOutcome ?s) ?cs = Some (getOutcomeReason ?s)"
    by blast
  then have r: "getOutcomeReason ?s = ''boom''"
    by (simp add: g strip_boom del: addOutcomes.simps)
  from inst h3 h4 have "getOutcomeReason (fst (addOutcome ?F ?s INSPECT ''look'' None))
      = getOutcomeReason ?s"
    by blast
  with r g show ?thesis by (simp del: addOutcomes.simps)
qed

theorem addOutcome_reason_counterexample:
  "\<not> (list_index PRECEDENT PASSED
        \<ge> list_index PRECEDENT (getOutcome (init_process_user False ''out'' :: nat process_user))
      \<longrightarrow> getOutcomeReason (fst (addOutcome [BLOCKED, DUMPEDCORE, FAILED, TIMEDOUT]
              (init_process_user False ''out'' :: nat process_user) PASSED ''ok'' None))
          = getOutcomeReason (init_process_user False ''out'' :: nat process_user))"
  by (simp add: getOutcomeReason_def addOutcome_def getOutcome_def init_process_user_def
      Let_def PRECEDENT_def strip_def isspace_def)

subsection \<open>Cleanup\<close>

lemma invoked_fns_append: "invoked_fns (ev1 @ ev2) = invoked_fns ev1 @ invoked_fns ev2"
  by (induction ev1 rule: invoked_fns.induct) simp_all


lemma run_cleanup_functions_invoked:
  "distinct fs \<Longrightarrow>
     distinct (invoked_fns (fst (run_cleanup_functions run fs)))
     \<and> set (invoked_fns (fst (run_cleanup_functions run fs))) \<subseteq> set fs"
  by (induction fs) (auto split: prod.splits fn_result.splits)

lemma stop_one_cases:
  "(stop_one p h :: (nat \<Rightarrow> process) \<times> 'f cleanup_event list) =
     (if running (h p) \<and> \<not> stopFails (h p)
        then (h(p := (h p)\<lparr>running := False\<rparr>), [Stopped p])
      else if running (h p)
        then (h, [StopFailed p (OtherException ''ProcessError'')])
      else (h, []))"
  by (simp add: stop_one_def process_stop_def)


lemma stop_one_events:
  "snd (stop_one p h :: (nat \<Rightarrow> process) \<times> 'f cleanup_event list) =
     (if running (h p) \<and> \<not> stopFails (h p) then [Stopped p]
      else if running (h p) then [StopFailed p (OtherException ''ProcessError'')]
      else [])"
  by (simp add: stop_one_cases)


lemma stop_processes_Cons_snd:
  "snd (stop_processes (p # ps) h :: (nat \<Rightarrow> process) \<times> 'f cleanup_event list) =
     snd (stop_one p h :: (nat \<Rightarrow> process) \<times> 'f cleanup_event list)
     @ snd (stop_processes ps (fst (stop_one p h :: (nat \<Rightarrow> process) \<times> 'f cleanup_event list))
          :: (nat \<Rightarrow> process) \<times> 'f cleanup_event list)"
  by (simp split: prod.splits)

lemma stop_processes_not_fn_events:
  "\<forall>e \<in> set (snd (stop_processes ps h :: (nat \<Rightarrow> process) \<times> 'f cleanup_event list)).
     \<not> is_fn_event e"
proof (induction ps arbitrary: h)
  case Nil
  show ?case by simp
next
  case (Cons p ps)
  show ?case
    unfolding stop_processes_Cons_snd using Cons by (auto simp: stop_one_events)
qed





lemma invoked_fns_not_fn: "\<forall>e \<in> set ev. \<not> is_fn_event e \<Longrightarrow> invoked_fns ev = []"
  by (induction ev rule: invoked_fns.induct) simp_all



lemma cleanup_unfold:
  fixes st :: "('f, 'x) process_user_scheme"
  shows "cleanup run st h =
     (let r = run_cleanup_functions run (rev (cleanupFunctions st));
          st1 = (if snd r = None then st\<lparr>cleanupFunctions := []\<rparr> else st);
          s = (stop_processes (processList st1) h :: (nat \<Rightarrow> process) \<times> 'f cleanup_event list)
      in (st1\<lparr>processList := [], processCount := Map.empty\<rparr>, fst s, fst r @ snd s, snd r))"
  by (simp add: cleanup_def Let_def split: prod.splits)


















subsection \<open>Registration of cleanup functions\<close>

lemma addCleanupFunction_distinct:
  "distinct (cleanupFunctions st) \<Longrightarrow> distinct (cleanupFunctions (addCleanupFunction st fn))"
  by (cases fn) (simp_all add: addCleanupFunction_def)

lemma register_all_distinct:
  "distinct (cleanupFunctions st) \<Longrightarrow>
     distinct (cleanupFunctions (foldl addCleanupFunction st fns))"
  by (induction fns arbitrary: st) (simp_all add: addCleanupFunction_distinct)

lemma distinct_count_list_le_1: "distinct xs \<Longrightarrow> count_list xs x \<le> 1"
  by (induction xs) auto

lemma cleanup_invoked_distinct:
  fixes st :: "('f, 'x) process_user_scheme"
  assumes "distinct (cleanupFunctions st)"
  shows "distinct (invoked_fns (cleanup_events (cleanup run st h)))"
proof -
  let ?r = "run_cleanup_functions run (rev (cleanupFunctions st))"
  have "invoked_fns (cleanup_events (cleanup run st h)) = invoked_fns (fst ?r)"
    by (simp add: cleanup_unfold Let_def cleanup_events_def invoked_fns_append
        invoked_fns_not_fn [OF stop_processes_not_fn_events])
  moreover from assms have "distinct (rev (cleanupFunctions st))" by simp
  ultimately show ?thesis using run_cleanup_functions_invoked [of "rev (cleanupFunctions st)" run]
    by simp
qed

text \<open>
  C10. Registering the same function a second time, or registering a falsy value, leaves
  the object as it is; the stack built by any sequence of registrations on a fresh object
  holds no function twice, and cleanup invokes no function more than once.
\<close>

theorem addCleanupFunction_idempotent:
  "addCleanupFunction (addCleanupFunction st (Some f)) (Some f) = addCleanupFunction st (Some f)
   \<and> addCleanupFunction st None = st
   \<and> distinct (cleanupFunctions
        (foldl addCleanupFunction (init_process_user a d :: 'f process_user) fns))
   \<and> count_list (invoked_fns (cleanup_events (cleanup run
        (foldl addCleanupFunction (init_process_user a d :: 'f process_user) fns) h))) f \<le> 1"
proof -
  let ?st = "foldl addCleanupFunction (init_process_user a d :: 'f process_user) fns"
  have d: "distinct (cleanupFunctions ?st)"
    by (rule register_all_distinct) (simp add: init_process_user_def)
  have "distinct (invoked_fns (cleanup_events (cleanup run ?st h)))"
    by (rule cleanup_invoked_distinct [OF d])
  then have "count_list (invoked_fns (cleanup_events (cleanup run ?st h))) f \<le> 1"
    by (rule distinct_count_list_le_1)
  moreover have "addCleanupFunction (addCleanupFunction st (Some f)) (Some f)
      = addCleanupFunction st (Some f)"
    by (simp add: addCleanupFunction_def)
  moreover have "addCleanupFunction st None = st"
    by (simp add: addCleanupFunction_def)
  ultimately show ?thesis using d by blast
qed

subsection \<open>Purging the output directory\<close>

lemma remove_with_retries_iff: "remove_with_retries e 0 \<longleftrightarrow> removeFailures e < 3"
proof -
  have 3: "\<not> remove_with_retries e (Suc (Suc (Suc 0)))"
    by (subst remove_with_retries.simps) simp
  have 2: "remove_with_retries e (Suc (Suc 0)) \<longleftrightarrow> removeFailures e \<le> 2"
    by (subst remove_with_retries.simps) (use 3 in \<open>auto simp: numeral_2_eq_2\<close>)
  have 1: "remove_with_retries e (Suc 0) \<longleftrightarrow> removeFailures e \<le> 2"
    by (subst remove_with_retries.simps) (use 2 in \<open>auto simp: numeral_2_eq_2\<close>)
  have "remove_with_retries e 0 \<longleftrightarrow> removeFailures e \<le> 2"
    by (subst remove_with_retries.simps) (use 1 in auto)
  then show ?thesis by auto
qed

text \<open>
  C7. With purge enabled and an all-PASSED outcome list, testComplete keeps every non-empty
  file whose name contains a match of the regular expression \<open>run.log\<close>, not only
  \<open>run.log\<close>: here the copy \<open>run.log.proc\<close> of the log and the file \<open>rerun_log.txt\<close>
  stay, while \<open>out.txt\<close> and the empty \<open>proc.err\<close> are removed.
\<close>

theorem testComplete_keeps_names_matching_run_log:
  "testComplete True [PASSED, PASSED] ''out''
     [''out'' \<mapsto> [\<lparr>name = ''run.log'', regular = True, size = 120, statFails = False, removeFailures = 0\<rparr>,
                  \<lparr>name = ''run.log.proc'', regular = True, size = 120, statFails = False, removeFailures = 0\<rparr>,
                  \<lparr>name = ''out.txt'', regular = True, size = 7, statFails = False, removeFailures = 0\<rparr>,
                  \<lparr>name = ''rerun_log.txt'', regular = True, size = 3, statFails = False, removeFailures = 0\<rparr>,
                  \<lparr>name = ''proc.err'', regular = True, size = 0, statFails = False, removeFailures = 0\<rparr>]]
   = [''out'' \<mapsto> [\<lparr>name = ''run.log'', regular = True, size = 120, statFails = False, removeFailures = 0\<rparr>,
                  \<lparr>name = ''run.log.proc'', regular = True, size = 120, statFails = False, removeFailures = 0\<rparr>,
                  \<lparr>name = ''rerun_log.txt'', regular = True, size = 3, statFails = False, removeFailures = 0\<rparr>]]"
  by (simp add: testComplete_def removeNonZero_def remove_with_retries_iff)

subsection \<open>The test container\<close>

text \<open>
  C5. A runnable test whose setup, execute and validate return normally and whose
  cleanup() raises an exception other than KeyboardInterrupt: the fourth try block has no
  handler for it, so the exception leaves the container call, and no BLOCKED outcome is
  recorded. Two more ways out of the call: a KeyboardInterrupt while the test class is
  loaded leaves testObj unset, and the AttributeError of the handler's own
  \<open>self.testObj.addOutcome(BLOCKED)\<close> leaves the call; with defaultAbortOnError set, that
  same call in the handler of a test that raised aborts, and the AbortExecution leaves
  the call (after BLOCKED was recorded).
\<close>

theorem container_call_propagates_cleanup_exception:
  "container_call [BLOCKED, DUMPEDCORE, FAILED, TIMEDOUT] ''''
      \<lparr> prepare = None,
        load = Inr (init_process_user False ''out'' :: nat process_user),
        placeholder = init_process_user False ''out'',
        setupTest = (\<lambda>s. (s, None)), executeTest = (\<lambda>s. (s, None)),
        validateTest = (\<lambda>s. (s, None)), outputListing = Some [],
        cleanupTest = (\<lambda>s. (s, Some (OtherException ''RuntimeError''))) \<rparr>
      0.25
      (init_container 0 \<lparr>descriptorId = ''T1'', descriptorState = ''runnable'', modes = []\<rparr> 0)
    = ((init_container 0 \<lparr>descriptorId = ''T1'', descriptorState = ''runnable'', modes = []\<rparr> 0)
         \<lparr>testObj := Some (init_process_user False ''out'')\<rparr>,
       Some (OtherException ''RuntimeError''))
   \<and> outcome (init_process_user False ''out'' :: nat process_user) = []
   \<and> snd (container_call [BLOCKED, DUMPEDCORE, FAILED, TIMEDOUT] ''''
      \<lparr> prepare = None,
        load = Inl KeyboardInterrupt,
        placeholder = (init_process_user False ''out'' :: nat process_user),
        setupTest = (\<lambda>s. (s, None)), executeTest = (\<lambda>s. (s, None)),
        validateTest = (\<lambda>s. (s, None)), outputListing = Some [],
        cleanupTest = (\<lambda>s. (s, None)) \<rparr>
      0.25
      (init_container 0 \<lparr>descriptorId = ''T1'', descriptorState = ''runnable'', modes = []\<rparr> 0))
    = Some (OtherException ''AttributeError'')
   \<and> snd (container_call [BLOCKED, DUMPEDCORE, FAILED, TIMEDOUT] ''''
      \<lparr> prepare = None,
        load = Inr (init_process_user True ''out'' :: nat process_user),
        placeholder = init_process_user True ''out'',
        setupTest = (\<lambda>s. (s, None)),
        executeTest = (\<lambda>s. (s, Some (OtherException ''ValueError''))),
        validateTest = (\<lambda>s. (s, None)), outputListing = Some [],
        cleanupTest = (\<lambda>s. (s, None)) \<rparr>
      0.25
      (init_container 0 \<lparr>descriptorId = ''T1'', descriptorState = ''runnable'', modes = []\<rparr> 0))
    = Some (AbortExecution BLOCKED '''')"
  by (simp add: container_call_def run_test_def on_testObj_def and_then_def detectCore_def
      init_container_def init_process_user_def addOutcome_def Let_def)

subsection \<open>Ordered publication\<close>

lemma leading_le: "leading S n \<le> n"
  unfolding leading_def by (metis length_takeWhile_le length_upt diff_zero)

lemma leading_mem: "i < leading S n \<Longrightarrow> i \<in> S"
proof -
  assume a: "i < leading S n"
  let ?t = "takeWhile (\<lambda>i. i \<in> S) [0..<n]"
  from a have "i < length ?t" by (simp add: leading_def)
  then have "?t ! i \<in> set ?t" by simp
  then have "?t ! i \<in> S" by (auto dest: set_takeWhileD)
  moreover have "?t ! i = [0..<n] ! i"
    using \<open>i < length ?t\<close> by (rule takeWhile_nth)
  moreover have "i < n" using a leading_le [of S n] by simp
  ultimately show ?thesis by simp
qed

lemma leading_stop: "leading S n < n \<Longrightarrow> leading S n \<notin> S"
proof -
  assume a: "leading S n < n"
  then have "length (takeWhile (\<lambda>i. i \<in> S) [0..<n]) < length [0..<n]"
    by (simp add: leading_def)
  from nth_length_takeWhile [OF this] a show ?thesis
    by (simp add: leading_def)
qed

lemma leading_unique:
  assumes "p \<le> n" and "\<forall>i < p. i \<in> S" and "p < n \<longrightarrow> p \<notin> S"
  shows "leading S n = p"
proof (rule ccontr)
  assume ne: "leading S n \<noteq> p"
  show False
  proof (cases "leading S n < p")
    case True
    then have "leading S n \<in> S" using assms(2) by simp
    moreover from True assms(1) have "leading S n < n" by simp
    ultimately show False using leading_stop by blast
  next
    case False
    with ne have "p < leading S n" by simp
    then have "p \<in> S" by (rule leading_mem)
    moreover from \<open>p < leading S n\<close> leading_le [of S n] have "p < n" by simp
    ultimately show False using assms(3) by simp
  qed
qed

lemma leading_full: "{..<n} \<subseteq> S \<Longrightarrow> leading S n = n"
  by (rule leading_unique) auto

lemma on_channel_append: "on_channel ch (a @ b) = on_channel ch a @ on_channel ch b"
  by (simp add: on_channel_def)

lemma on_channel_slot_events:
  "ch \<noteq> Prompt \<Longrightarrow> ch \<noteq> Tally \<Longrightarrow>
     on_channel ch (slot_events st c) = (if active st ch then [counter c] else [])"
proof (cases ch)
  case (Writer k)
  have "filter (\<lambda>e. fst e = Writer k) (map (\<lambda>k. (Writer k, counter c)) [0..<length (writers st)])
      = (if k < length (writers st) then [(Writer k, counter c)] else [])"
  proof -
    have "filter (\<lambda>e. fst e = Writer k) (map (\<lambda>k. (Writer k, counter c)) xs)
        = map (\<lambda>k. (Writer k, counter c)) (filter (\<lambda>j. j = k) xs)" for xs
      by (induction xs) auto
    moreover have "filter (\<lambda>j. j = k) [0..<m] = (if k < m then [k] else [])" for m
      by (induction m) auto
    ultimately show ?thesis by simp
  qed
  with Writer show ?thesis
    by (simp add: on_channel_def slot_events_def)
qed (simp_all add: on_channel_def slot_events_def)

lemma on_channel_Tally_slot_events: "on_channel Tally (slot_events st c) = []"
  by (auto simp add: on_channel_def slot_events_def filter_empty_conv)


lemma same_settings_refl: "same_settings st st"
  by (simp add: same_settings_def)

lemma same_settings_trans:
  "same_settings a b \<Longrightarrow> same_settings b c \<Longrightarrow> same_settings a c"
  by (simp add: same_settings_def)

lemma same_settings_active: "same_settings st st' \<Longrightarrow> active st' ch = active st ch"
  by (cases ch) (simp_all add: same_settings_def)

lemma publish_slot_eval:
  "publish_slot quits st i c =
     (if testObj c = None \<and> consoleWarn st
      then (st\<lparr>published := published st
                    @ (if threads st > 1 then [(Flush, counter c)] else [])\<rparr>,
            Some (OtherException ''AttributeError''))
      else if testObj c = None \<and> purge st
      then (st\<lparr>published := published st
                    @ (if threads st > 1 then [(Flush, counter c)] else [])
                    @ [(TestComplete, counter c)]\<rparr>,
            Some (OtherException ''AttributeError''))
      else if kbrdInt c \<and> quits (counter c)
      then (st\<lparr>published := published st @ slot_events st c\<rparr>,
            Some (OtherException ''AttributeError''))
      else if testObj c = None
      then (st\<lparr>published := published st @ slot_events st c,
               duration := duration st + testTime c\<rparr>,
            Some (OtherException ''AttributeError''))
      else (st\<lparr>published := published st @ slot_events st c @ [(Tally, counter c)],
               duration := duration st + testTime c,
               results := (results st)(cycle c :=
                  (results st (cycle c))(getOutcome (the (testObj c)) :=
                     results st (cycle c) (getOutcome (the (testObj c)))
                     @ [descriptorId (containerDescriptor c)])),
               resultsQueue := (resultsQueue st)[i := None],
               resultsPointer := resultsPointer st + 1\<rparr>,
            None))"
  by (cases "testObj c") (simp_all add: publish_slot_def)

lemma publish_slot_raises_iff:
  "snd (publish_slot quits st i c) = None
     \<longleftrightarrow> testObj c \<noteq> None \<and> \<not> (kbrdInt c \<and> quits (counter c))"
  by (simp add: publish_slot_eval)

lemma publish_slot_settings: "same_settings st (fst (publish_slot quits st i c))"
  by (simp add: publish_slot_eval same_settings_def)

lemma publish_slot_None:
  assumes "snd (publish_slot quits st i c) = None"
  shows "resultsPointer (fst (publish_slot quits st i c)) = resultsPointer st + 1"
    and "resultsQueue (fst (publish_slot quits st i c)) = (resultsQueue st)[i := None]"
    and "published (fst (publish_slot quits st i c))
          = published st @ slot_events st c @ [(Tally, counter c)]"
proof -
  from assms have a: "testObj c \<noteq> None" and b: "\<not> (kbrdInt c \<and> quits (counter c))"
    by (simp_all add: publish_slot_raises_iff)
  from a b show "resultsPointer (fst (publish_slot quits st i c)) = resultsPointer st + 1"
    by (auto simp add: publish_slot_eval)
  from a b show "resultsQueue (fst (publish_slot quits st i c)) = (resultsQueue st)[i := None]"
    by (auto simp add: publish_slot_eval)
  from a b show "published (fst (publish_slot quits st i c))
          = published st @ slot_events st c @ [(Tally, counter c)]"
    by (auto simp add: publish_slot_eval)
qed

text \<open>What a raising pass of the loop body has published: each channel at most once.\<close>

lemma on_channel_flush:
  "on_channel ch (if threads st > 1 then [(Flush, counter c)] else []) = []
   \<or> (active st ch
       \<and> on_channel ch (if threads st > 1 then [(Flush, counter c)] else []) = [counter c])"
  by (cases ch) (simp_all add: on_channel_def)

lemma on_channel_flush_complete:
  "on_channel ch ((if threads st > 1 then [(Flush, counter c)] else [])
        @ [(TestComplete, counter c)]) = []
   \<or> (active st ch
       \<and> on_channel ch ((if threads st > 1 then [(Flush, counter c)] else [])
            @ [(TestComplete, counter c)]) = [counter c])"
  by (cases ch) (simp_all add: on_channel_def)

lemma on_channel_slot_events_cases:
  assumes "ch \<noteq> Prompt"
  shows "on_channel ch (slot_events st c) = []
    \<or> (active st ch \<and> on_channel ch (slot_events st c) = [counter c])"
proof (cases "ch = Tally")
  case True
  then show ?thesis by (simp add: on_channel_Tally_slot_events)
next
  case False
  with assms show ?thesis by (simp add: on_channel_slot_events)
qed

lemma publish_slot_Some:
  assumes "snd (publish_slot quits st i c) \<noteq> None" and "ch \<noteq> Prompt"
  shows "resultsPointer (fst (publish_slot quits st i c)) = resultsPointer st"
    and "on_channel ch (published (fst (publish_slot quits st i c))) = on_channel ch (published st)
        \<or> (active st ch \<and> on_channel ch (published (fst (publish_slot quits st i c)))
            = on_channel ch (published st) @ [counter c])"
proof -
  from assms(1) have r: "testObj c = None \<or> (kbrdInt c \<and> quits (counter c))"
    by (auto simp add: publish_slot_raises_iff)
  then show "resultsPointer (fst (publish_slot quits st i c)) = resultsPointer st"
    by (auto simp add: publish_slot_eval)
  from r have "published (fst (publish_slot quits st i c)) = published st
                    @ (if threads st > 1 then [(Flush, counter c)] else [])
      \<or> published (fst (publish_slot quits st i c)) = published st
                    @ ((if threads st > 1 then [(Flush, counter c)] else [])
                    @ [(TestComplete, counter c)])
      \<or> published (fst (publish_slot quits st i c)) = published st @ slot_events st c"
    by (auto simp add: publish_slot_eval)
  then show "on_channel ch (published (fst (publish_slot quits st i c))) = on_channel ch (published st)
        \<or> (active st ch \<and> on_channel ch (published (fst (publish_slot quits st i c)))
            = on_channel ch (published st) @ [counter c])"
  proof (elim disjE)
    assume f: "published (fst (publish_slot quits st i c)) = published st
                    @ (if threads st > 1 then [(Flush, counter c)] else [])"
    from on_channel_flush [of ch st c] show ?thesis
      by (auto simp only: f on_channel_append [of ch "published st"] append_Nil2)
  next
    assume a: "published (fst (publish_slot quits st i c)) = published st
                    @ ((if threads st > 1 then [(Flush, counter c)] else [])
                    @ [(TestComplete, counter c)])"
    from on_channel_flush_complete [of ch st c] show ?thesis
      by (auto simp only: a on_channel_append [of ch "published st"] append_Nil2)
  next
    assume b: "published (fst (publish_slot quits st i c)) = published st @ slot_events st c"
    from on_channel_slot_events_cases [OF assms(2), of st c] show ?thesis
      by (auto simp only: b on_channel_append [of ch "published st"] append_Nil2)
  qed
qed

lemma on_channel_single: "on_channel ch [(ch', k)] = (if ch' = ch then [k] else [])"
  by (simp add: on_channel_def)

lemma trace_upto_step:
  assumes "trace_upto st p" and "same_settings st st'"
    and "published st' = published st @ slot_events st c @ [(Tally, counter c)]"
    and "counter c = p"
  shows "trace_upto st' (Suc p)"
  unfolding trace_upto_def
proof (intro allI impI)
  fix ch :: channel
  assume np: "ch \<noteq> Prompt"
  from assms(1) np have old: "on_channel ch (published st) = (if active st ch then [0..<p] else [])"
    by (simp add: trace_upto_def)
  have act: "active st' ch = active st ch" by (rule same_settings_active [OF assms(2)])
  have new: "on_channel ch (published st')
      = on_channel ch (published st) @ on_channel ch (slot_events st c)
        @ on_channel ch [(Tally, counter c)]"
    unfolding assms(3) on_channel_append ..
  show "on_channel ch (published st') = (if active st' ch then [0..<Suc p] else [])"
  proof (cases "ch = Tally")
    case True
    show ?thesis
      unfolding new act old using True assms(4)
      by (simp add: on_channel_Tally_slot_events on_channel_single)
  next
    case False
    show ?thesis
      unfolding new act old using False np assms(4)
      by (simp add: on_channel_slot_events on_channel_single)
  qed
qed


lemma publish_loop_unfold:
  "publish_loop quits st i n =
     (if i < n \<and> i < length (resultsQueue st)
      then (case resultsQueue st ! i of
              None \<Rightarrow> (st, None)
            | Some c \<Rightarrow>
                if snd (publish_slot quits st i c) = None
                then publish_loop quits (fst (publish_slot quits st i c)) (i + 1) n
                else publish_slot quits st i c)
      else (st, None))"
  by (subst publish_loop.simps) (auto split: option.splits prod.splits)

lemma publish_loop_stop:
  "\<not> (i < n \<and> i < length (resultsQueue st)) \<or> resultsQueue st ! i = None
     \<Longrightarrow> publish_loop quits st i n = (st, None)"
  by (subst publish_loop_unfold) auto

lemma publish_loop_raise:
  "i < n \<Longrightarrow> i < length (resultsQueue st) \<Longrightarrow> resultsQueue st ! i = Some c
     \<Longrightarrow> snd (publish_slot quits st i c) \<noteq> None
     \<Longrightarrow> publish_loop quits st i n = publish_slot quits st i c"
  by (subst publish_loop_unfold) auto

lemma publish_loop_next:
  "i < n \<Longrightarrow> i < length (resultsQueue st) \<Longrightarrow> resultsQueue st ! i = Some c
     \<Longrightarrow> snd (publish_slot quits st i c) = None
     \<Longrightarrow> publish_loop quits st i n = publish_loop quits (fst (publish_slot quits st i c)) (i + 1) n"
  by (subst publish_loop_unfold) auto

lemma trace_upto_prefix:
  "trace_upto st p \<Longrightarrow> ch \<noteq> Prompt \<Longrightarrow> \<exists>m. on_channel ch (published st) = [0..<m]"
  by (cases "active st ch") (auto simp: trace_upto_def intro: exI [of _ 0])

lemma queue_ok_published:
  assumes "queue_ok n st" and "i < n" and "resultsQueue st ! i = Some c"
    and "snd (publish_slot quits st i c) = None" and "resultsPointer st = i"
  shows "queue_ok n (fst (publish_slot quits st i c))"
proof -
  let ?st = "fst (publish_slot quits st i c)"
  from assms(1) have len: "length (resultsQueue st) = n"
    and cnt: "\<forall>j < n. \<forall>c. resultsQueue st ! j = Some c \<longrightarrow> counter c = j"
    and tr: "trace_upto st (resultsPointer st)"
    by (simp_all add: queue_ok_def)
  note q = publish_slot_None [OF assms(4)]
  from cnt assms(2,3) have ci: "counter c = i" by blast
  have "length (resultsQueue ?st) = n" by (simp add: q(2) len)
  moreover have "\<forall>j < n. \<forall>d. resultsQueue ?st ! j = Some d \<longrightarrow> counter d = j"
    using cnt len assms(2) by (auto simp: q(2) nth_list_update split: if_splits)
  moreover have "trace_upto ?st (resultsPointer ?st)"
    unfolding q(1) using trace_upto_step [OF _ publish_slot_settings q(3)] tr assms(5) ci
    by simp
  ultimately show ?thesis by (simp add: queue_ok_def)
qed

text \<open>Whatever the loop meets, every channel has published an initial segment of 0, 1, 2, ...\<close>

lemma publish_loop_prefix:
  assumes "queue_ok n st" and "resultsPointer st = i"
  shows "(snd (publish_loop quits st i n) = None \<longrightarrow> queue_ok n (fst (publish_loop quits st i n)))
    \<and> same_settings st (fst (publish_loop quits st i n))
    \<and> (\<forall>ch. ch \<noteq> Prompt \<longrightarrow>
          (\<exists>m. on_channel ch (published (fst (publish_loop quits st i n))) = [0..<m]))"
  using assms
proof (induction "n - i" arbitrary: st i)
  case 0
  then have "publish_loop quits st i n = (st, None)"
    by (intro publish_loop_stop) simp
  with 0 show ?case
    by (auto simp: same_settings_refl queue_ok_def intro: trace_upto_prefix)
next
  case (Suc k)
  from Suc.prems have len: "length (resultsQueue st) = n"
    and cnt: "\<forall>j < n. \<forall>c. resultsQueue st ! j = Some c \<longrightarrow> counter c = j"
    and tr: "trace_upto st i"
    by (simp_all add: queue_ok_def)
  from Suc.hyps(2) have lt: "i < n" by simp
  show ?case
  proof (cases "resultsQueue st ! i")
    case None
    then have "publish_loop quits st i n = (st, None)"
      by (intro publish_loop_stop) simp
    with Suc.prems tr show ?thesis
      by (auto simp: same_settings_refl intro: trace_upto_prefix)
  next
    case (Some c)
    from cnt lt Some have ci: "counter c = i" by blast
    let ?st = "fst (publish_slot quits st i c)"
    show ?thesis
    proof (cases "snd (publish_slot quits st i c) = None")
      case True
      have e: "publish_loop quits st i n = publish_loop quits ?st (i + 1) n"
        using lt len Some True by (intro publish_loop_next) simp_all
      have ok: "queue_ok n ?st"
        by (rule queue_ok_published [OF Suc.prems(1) lt Some True Suc.prems(2)])
      have ptr: "resultsPointer ?st = i + 1"
        using publish_slot_None(1) [OF True] Suc.prems(2) by simp
      have k: "k = n - (i + 1)" using Suc.hyps(2) by simp
      from Suc.hyps(1) [OF k ok ptr] same_settings_trans [OF publish_slot_settings]
      show ?thesis unfolding e by blast
    next
      case False
      have e: "publish_loop quits st i n = publish_slot quits st i c"
        using lt len Some False by (intro publish_loop_raise) simp_all
      have "\<exists>m. on_channel ch (published ?st) = [0..<m]" if np: "ch \<noteq> Prompt" for ch
      proof -
        from tr np have old: "on_channel ch (published st) = (if active st ch then [0..<i] else [])"
          by (simp add: trace_upto_def)
        from publish_slot_Some(2) [OF False np] show ?thesis
        proof
          assume "on_channel ch (published ?st) = on_channel ch (published st)"
          with old show ?thesis by (cases "active st ch") (auto intro: exI [of _ 0])
        next
          assume a: "active st ch \<and> on_channel ch (published ?st)
              = on_channel ch (published st) @ [counter c]"
          with old ci have "on_channel ch (published ?st) = [0..<Suc i]" by simp
          then show ?thesis by blast
        qed
      qed
      then show ?thesis unfolding e using False publish_slot_settings by blast
    qed
  qed
qed


text \<open>The loop publishes exactly the filled slots that follow the cursor without a gap.\<close>

lemma publish_loop_exact:
  assumes "loop_inv quits n S p st"
  shows "snd (publish_loop quits st p n) = None
    \<and> loop_inv quits n S (leading S n) (fst (publish_loop quits st p n))
    \<and> same_settings st (fst (publish_loop quits st p n))"
  using assms
proof (induction "n - p" arbitrary: st p)
  case 0
  then have pn: "p = n" by (simp add: loop_inv_def)
  have "publish_loop quits st p n = (st, None)"
    using pn by (intro publish_loop_stop) simp
  moreover have "leading S n = p"
    using 0(2) pn by (intro leading_unique) (simp_all add: loop_inv_def)
  ultimately show ?case using 0(2) by (simp add: same_settings_refl)
next
  case (Suc k)
  from Suc.prems have ok: "queue_ok n st" and ptr: "resultsPointer st = p" and le: "p \<le> n"
    and below: "\<forall>j < p. j \<in> S"
    and slots: "\<forall>j < n. (resultsQueue st ! j = None) = (j \<notin> S \<or> j < p)"
    and pub: "\<forall>j < n. \<forall>c. resultsQueue st ! j = Some c \<longrightarrow> publishable quits c"
    by (simp_all add: loop_inv_def)
  from ok have len: "length (resultsQueue st) = n" by (simp add: queue_ok_def)
  from Suc.hyps(2) have lt: "p < n" by simp
  show ?case
  proof (cases "resultsQueue st ! p")
    case None
    with slots lt have "p \<notin> S" by auto
    then have "leading S n = p" using le below by (intro leading_unique) simp_all
    moreover have "publish_loop quits st p n = (st, None)"
      using None by (intro publish_loop_stop) simp
    ultimately show ?thesis using Suc.prems by (simp add: same_settings_refl)
  next
    case (Some c)
    let ?st = "fst (publish_slot quits st p c)"
    from pub lt Some have "publishable quits c" by blast
    then have nr: "snd (publish_slot quits st p c) = None"
      by (simp add: publish_slot_raises_iff publishable_def)
    have e: "publish_loop quits st p n = publish_loop quits ?st (p + 1) n"
      using lt len Some nr by (intro publish_loop_next) simp_all
    note q = publish_slot_None [OF nr]
    from slots lt Some have pS: "p \<in> S" by auto
    have inv: "loop_inv quits n S (p + 1) ?st"
      unfolding loop_inv_def
    proof (intro conjI)
      show "queue_ok n ?st" by (rule queue_ok_published [OF ok lt Some nr ptr])
      show "resultsPointer ?st = p + 1" using q(1) ptr by simp
      show "p + 1 \<le> n" using lt by simp
      show "\<forall>j < p + 1. j \<in> S" using below pS by (auto simp: less_Suc_eq)
      show "\<forall>j < n. (resultsQueue ?st ! j = None) = (j \<notin> S \<or> j < p + 1)"
      proof (intro allI impI)
        fix j assume "j < n"
        show "(resultsQueue ?st ! j = None) = (j \<notin> S \<or> j < p + 1)"
        proof (cases "j = p")
          case True
          then show ?thesis using lt len by (simp add: q(2))
        next
          case False
          then have "resultsQueue ?st ! j = resultsQueue st ! j" by (simp add: q(2))
          moreover from False have "(j < p + 1) = (j < p)" by auto
          ultimately show ?thesis using slots \<open>j < n\<close> by simp
        qed
      qed
      show "\<forall>j < n. \<forall>d. resultsQueue ?st ! j = Some d \<longrightarrow> publishable quits d"
        using pub lt len by (auto simp: q(2) nth_list_update split: if_splits)
    qed
    have k: "k = n - (p + 1)" using Suc.hyps(2) by simp
    from Suc.hyps(1) [OF k inv] same_settings_trans [OF publish_slot_settings]
    show ?thesis unfolding e by blast
  qed
qed

lemma active_store: "active (st\<lparr>resultsQueue := q\<rparr>) ch = active st ch"
  by (cases ch) simp_all

lemma published_store: "published (st\<lparr>resultsQueue := q\<rparr>) = published st"
  by simp

lemma trace_upto_store: "trace_upto (st\<lparr>resultsQueue := q\<rparr>) p = trace_upto st p"
  unfolding trace_upto_def by (simp only: active_store published_store)

lemma queue_ok_store:
  assumes "queue_ok n st" and "counter c < n"
  shows "queue_ok n (st\<lparr>resultsQueue := (resultsQueue st)[counter c := Some c]\<rparr>)"
proof -
  let ?st = "st\<lparr>resultsQueue := (resultsQueue st)[counter c := Some c]\<rparr>"
  from assms(1) have len: "length (resultsQueue st) = n"
    and cnt: "\<forall>j < n. \<forall>d. resultsQueue st ! j = Some d \<longrightarrow> counter d = j"
    and tr: "trace_upto st (resultsPointer st)"
    by (simp_all add: queue_ok_def)
  have q: "resultsQueue ?st = (resultsQueue st)[counter c := Some c]" by simp
  have p: "resultsPointer ?st = resultsPointer st" by simp
  show ?thesis
    unfolding queue_ok_def
  proof (intro conjI allI impI)
    show "length (resultsQueue ?st) = n" unfolding q using len by simp
  next
    fix j d
    assume j: "j < n" and h: "resultsQueue ?st ! j = Some d"
    show "counter d = j"
    proof (cases "j = counter c")
      case True
      with h len j have "d = c" unfolding q by simp
      with True show ?thesis by simp
    next
      case False
      with h have "resultsQueue st ! j = Some d" unfolding q by simp
      with cnt j show ?thesis by blast
    qed
  next
    show "trace_upto ?st (resultsPointer ?st)"
      unfolding p trace_upto_store by (rule tr)
  qed
qed

lemma containerCallback_prefix:
  assumes "queue_ok n st"
  shows "(snd (containerCallback quits st c) = None
            \<longrightarrow> queue_ok n (fst (containerCallback quits st c)))
    \<and> same_settings st (fst (containerCallback quits st c))
    \<and> (\<forall>ch. ch \<noteq> Prompt \<longrightarrow>
          (\<exists>m. on_channel ch (published (fst (containerCallback quits st c))) = [0..<m]))"
proof (cases "counter c < length (resultsQueue st)")
  case False
  then have "containerCallback quits st c = (st, Some (OtherException ''IndexError''))"
    by (simp add: containerCallback_def)
  moreover from assms have "trace_upto st (resultsPointer st)" by (simp add: queue_ok_def)
  ultimately show ?thesis by (auto simp: same_settings_refl intro: trace_upto_prefix)
next
  case True
  let ?st = "st\<lparr>resultsQueue := (resultsQueue st)[counter c := Some c]\<rparr>"
  from assms have len: "length (resultsQueue st) = n" by (simp add: queue_ok_def)
  have e: "containerCallback quits st c = publish_loop quits ?st (resultsPointer st) n"
    using True len by (simp add: containerCallback_def)
  have ok: "queue_ok n ?st" using assms True len by (intro queue_ok_store) simp_all
  have ss: "same_settings st ?st" by (simp add: same_settings_def)
  have ptr: "resultsPointer ?st = resultsPointer st" by simp
  note P = publish_loop_prefix [OF ok ptr, of quits]
  show ?thesis
    unfolding e
    using P [THEN conjunct1] same_settings_trans [OF ss P [THEN conjunct2, THEN conjunct1]]
      P [THEN conjunct2, THEN conjunct2]
    by (intro conjI)
qed

lemma containerCallback_exact:
  assumes "loop_inv quits n S (leading S n) st"
    and "counter c < n" and "counter c \<notin> S" and "publishable quits c"
  shows "snd (containerCallback quits st c) = None
    \<and> loop_inv quits n (insert (counter c) S) (leading (insert (counter c) S) n)
        (fst (containerCallback quits st c))
    \<and> same_settings st (fst (containerCallback quits st c))"
proof -
  let ?p = "leading S n"
  let ?st = "st\<lparr>resultsQueue := (resultsQueue st)[counter c := Some c]\<rparr>"
  from assms(1) have ok: "queue_ok n st" and ptr: "resultsPointer st = ?p" and le: "?p \<le> n"
    and below: "\<forall>j < ?p. j \<in> S"
    and slots: "\<forall>j < n. (resultsQueue st ! j = None) = (j \<notin> S \<or> j < ?p)"
    and pub: "\<forall>j < n. \<forall>d. resultsQueue st ! j = Some d \<longrightarrow> publishable quits d"
    by (simp_all add: loop_inv_def)
  from ok have len: "length (resultsQueue st) = n" by (simp add: queue_ok_def)
  have e: "containerCallback quits st c = publish_loop quits ?st ?p n"
    using assms(2) len ptr by (simp add: containerCallback_def)
  from below assms(3) have ge: "\<not> counter c < ?p" by blast
  have inv: "loop_inv quits n (insert (counter c) S) ?p ?st"
    unfolding loop_inv_def
  proof (intro conjI)
    show "queue_ok n ?st" by (rule queue_ok_store [OF ok assms(2)])
    show "resultsPointer ?st = ?p" using ptr by simp
    show "?p \<le> n" by (rule le)
    show "\<forall>j < ?p. j \<in> insert (counter c) S" using below by simp
    show "\<forall>j < n. (resultsQueue ?st ! j = None) = (j \<notin> insert (counter c) S \<or> j < ?p)"
    proof (intro allI impI)
      fix j assume jn: "j < n"
      show "(resultsQueue ?st ! j = None) = (j \<notin> insert (counter c) S \<or> j < ?p)"
      proof (cases "j = counter c")
        case True
        then show ?thesis using ge len assms(2) by simp
      next
        case False
        then have "resultsQueue ?st ! j = resultsQueue st ! j" by simp
        then show ?thesis using slots jn False by simp
      qed
    qed
    show "\<forall>j < n. \<forall>d. resultsQueue ?st ! j = Some d \<longrightarrow> publishable quits d"
    proof (intro allI impI)
      fix j d
      assume j: "j < n" and h: "resultsQueue ?st ! j = Some d"
      show "publishable quits d"
      proof (cases "j = counter c")
        case True
        with h len j have "d = c" by simp
        with assms(4) show ?thesis by simp
      next
        case False
        with h have "resultsQueue st ! j = Some d" by simp
        with pub j show ?thesis by blast
      qed
    qed
  qed
  have ss: "same_settings st ?st" by (simp add: same_settings_def)
  note P = publish_loop_exact [OF inv]
  show ?thesis
    unfolding e
    using P [THEN conjunct1] P [THEN conjunct2, THEN conjunct1]
      same_settings_trans [OF ss P [THEN conjunct2, THEN conjunct2]]
    by (intro conjI)
qed

lemma deliver_Cons:
  "deliver quits st (c # cs) =
     (if snd (containerCallback quits st c) = None
      then deliver quits (fst (containerCallback quits st c)) cs
      else containerCallback quits st c)"
  by (auto split: prod.splits option.splits)

lemma deliver_prefix:
  assumes "queue_ok n st"
  shows "\<forall>ch. ch \<noteq> Prompt \<longrightarrow>
          (\<exists>m. on_channel ch (published (fst (deliver quits st cs))) = [0..<m])"
  using assms
proof (induction cs arbitrary: st)
  case Nil
  then have "trace_upto st (resultsPointer st)" by (simp add: queue_ok_def)
  then show ?case by (auto intro: trace_upto_prefix)
next
  case (Cons c cs)
  note cb = containerCallback_prefix [OF Cons.prems, of quits c]
  show ?case
  proof (cases "snd (containerCallback quits st c) = None")
    case True
    with cb [THEN conjunct1] have "queue_ok n (fst (containerCallback quits st c))" by simp
    moreover from True
    have "deliver quits st (c # cs) = deliver quits (fst (containerCallback quits st c)) cs"
      by (simp add: deliver_Cons del: deliver.simps)
    ultimately show ?thesis using Cons.IH by simp
  next
    case False
    then have "deliver quits st (c # cs) = containerCallback quits st c"
      by (auto simp add: deliver_Cons simp del: deliver.simps)
    then show ?thesis using cb [THEN conjunct2, THEN conjunct2] by (simp del: deliver.simps)
  qed
qed

lemma deliver_exact:
  assumes "loop_inv quits n S (leading S n) st"
    and "distinct (map counter cs)"
    and "\<forall>c \<in> set cs. counter c < n \<and> counter c \<notin> S \<and> publishable quits c"
  shows "snd (deliver quits st cs) = None
    \<and> loop_inv quits n (S \<union> counter ` set cs) (leading (S \<union> counter ` set cs) n)
        (fst (deliver quits st cs))
    \<and> same_settings st (fst (deliver quits st cs))"
  using assms
proof (induction cs arbitrary: st S)
  case Nil
  then show ?case by (simp add: same_settings_refl)
next
  case (Cons c cs)
  let ?S = "insert (counter c) S"
  let ?st = "fst (containerCallback quits st c)"
  from Cons.prems(3) have c: "counter c < n" "counter c \<notin> S" "publishable quits c"
    by simp_all
  note cb = containerCallback_exact [OF Cons.prems(1) c]
  note nr = cb [THEN conjunct1]
  note inv = cb [THEN conjunct2, THEN conjunct1]
  note ss = cb [THEN conjunct2, THEN conjunct2]
  from Cons.prems(2) have d: "distinct (map counter cs)" and nin: "counter c \<notin> counter ` set cs"
    by simp_all
  have rest: "\<forall>x \<in> set cs. counter x < n \<and> counter x \<notin> ?S \<and> publishable quits x"
  proof
    fix x assume x: "x \<in> set cs"
    with nin have "counter x \<noteq> counter c" by (metis imageI)
    with x Cons.prems(3) show "counter x < n \<and> counter x \<notin> ?S \<and> publishable quits x"
      by simp
  qed
  have u: "S \<union> counter ` set (c # cs) = ?S \<union> counter ` set cs" by simp
  have e: "deliver quits st (c # cs) = deliver quits ?st cs"
    using nr by (simp add: deliver_Cons del: deliver.simps)
  note P = Cons.IH [OF inv d rest]
  show ?case
    unfolding e u
    using P [THEN conjunct1] P [THEN conjunct2, THEN conjunct1]
      same_settings_trans [OF ss P [THEN conjunct2, THEN conjunct2]]
    by (intro conjI)
qed

lemma begin_cycle_inv: "loop_inv quits n {} (leading {} n) (begin_cycle st cyc n)"
proof -
  have l: "leading {} n = 0" by (rule leading_unique) simp_all
  have "trace_upto (begin_cycle st cyc n) 0"
    by (simp add: trace_upto_def begin_cycle_def on_channel_def)
  then have "queue_ok n (begin_cycle st cyc n)"
    by (simp add: queue_ok_def) (simp add: begin_cycle_def)
  then show ?thesis
    unfolding l loop_inv_def by (simp add: begin_cycle_def)
qed


lemma upt_prefix_length: "\<exists>m. xs = [0..<m] \<Longrightarrow> xs = [0..<length xs]"
  by auto

lemma begin_cycle_settings: "same_settings st (begin_cycle st cyc n)"
  by (simp add: same_settings_def begin_cycle_def)

text \<open>
  C1. A cycle over \<open>n\<close> descriptors whose containers go to the pool: the callbacks run
  in the order in which the containers complete. Whatever that order is, and whatever a
  callback meets, the containers flushed to the log, passed to testComplete, forwarded to
  each writer and tallied are each an initial segment 0, 1, 2, ... of the submission
  order. When the completed containers have distinct counters below \<open>n\<close>, each with a test
  object and none ended by the operator at its prompt, no callback raises, the cursor
  stands after the leading run of completed containers, and each of these sequences is
  exactly 0, ..., cursor - 1: a slot is published only when it and every earlier slot is
  filled. Once all \<open>n\<close> containers have completed, the sequences are 0, ..., n - 1.
\<close>

theorem containerCallback_publishes_in_submission_order:
  fixes st :: "'f runner"
  shows
    "on_channel Flush (published (fst (deliver quits (begin_cycle st cyc n) cs)))
        = [0..<length (on_channel Flush (published (fst (deliver quits (begin_cycle st cyc n) cs))))]
     \<and> on_channel TestComplete (published (fst (deliver quits (begin_cycle st cyc n) cs)))
        = [0..<length (on_channel TestComplete
              (published (fst (deliver quits (begin_cycle st cyc n) cs))))]
     \<and> on_channel (Writer k) (published (fst (deliver quits (begin_cycle st cyc n) cs)))
        = [0..<length (on_channel (Writer k)
              (published (fst (deliver quits (begin_cycle st cyc n) cs))))]
     \<and> on_channel Tally (published (fst (deliver quits (begin_cycle st cyc n) cs)))
        = [0..<length (on_channel Tally (published (fst (deliver quits (begin_cycle st cyc n) cs))))]
     \<and> (distinct (map counter cs) \<and> (\<forall>c \<in> set cs. counter c < n \<and> publishable quits c)
          \<longrightarrow>
          snd (deliver quits (begin_cycle st cyc n) cs) = None
          \<and> resultsPointer (fst (deliver quits (begin_cycle st cyc n) cs))
              = leading (counter ` set cs) n
          \<and> on_channel TestComplete (published (fst (deliver quits (begin_cycle st cyc n) cs)))
              = [0..<leading (counter ` set cs) n]
          \<and> on_channel Tally (published (fst (deliver quits (begin_cycle st cyc n) cs)))
              = [0..<leading (counter ` set cs) n]
          \<and> (threads st > 1 \<longrightarrow>
                on_channel Flush (published (fst (deliver quits (begin_cycle st cyc n) cs)))
                  = [0..<leading (counter ` set cs) n])
          \<and> (recordResults st \<and> k < length (writers st) \<longrightarrow>
                on_channel (Writer k) (published (fst (deliver quits (begin_cycle st cyc n) cs)))
                  = [0..<leading (counter ` set cs) n])
          \<and> (counter ` set cs = {..<n} \<longrightarrow> leading (counter ` set cs) n = n))"
proof -
  let ?b = "begin_cycle st cyc n"
  let ?r = "fst (deliver quits ?b cs)"
  have inv0: "loop_inv quits n {} (leading {} n) ?b" by (rule begin_cycle_inv)
  then have ok0: "queue_ok n ?b" by (simp add: loop_inv_def)
  note pre = deliver_prefix [OF ok0, of quits cs, rule_format]
  have a1: "on_channel Flush (published ?r) = [0..<length (on_channel Flush (published ?r))]"
    by (rule upt_prefix_length [OF pre]) simp
  have a2: "on_channel TestComplete (published ?r)
      = [0..<length (on_channel TestComplete (published ?r))]"
    by (rule upt_prefix_length [OF pre]) simp
  have a3: "on_channel (Writer k) (published ?r)
      = [0..<length (on_channel (Writer k) (published ?r))]"
    by (rule upt_prefix_length [OF pre]) simp
  have a4: "on_channel Tally (published ?r) = [0..<length (on_channel Tally (published ?r))]"
    by (rule upt_prefix_length [OF pre]) simp
  have b: "snd (deliver quits ?b cs) = None
          \<and> resultsPointer ?r = leading (counter ` set cs) n
          \<and> on_channel TestComplete (published ?r) = [0..<leading (counter ` set cs) n]
          \<and> on_channel Tally (published ?r) = [0..<leading (counter ` set cs) n]
          \<and> (threads st > 1 \<longrightarrow>
                on_channel Flush (published ?r) = [0..<leading (counter ` set cs) n])
          \<and> (recordResults st \<and> k < length (writers st) \<longrightarrow>
                on_channel (Writer k) (published ?r) = [0..<leading (counter ` set cs) n])
          \<and> (counter ` set cs = {..<n} \<longrightarrow> leading (counter ` set cs) n = n)"
    if d: "distinct (map counter cs)"
      and c: "\<forall>c \<in> set cs. counter c < n \<and> publishable quits c"
  proof -
    let ?S = "counter ` set cs"
    from c have c': "\<forall>c \<in> set cs. counter c < n \<and> counter c \<notin> {} \<and> publishable quits c"
      by simp
    note ex = deliver_exact [OF inv0 d c']
    have u: "{} \<union> ?S = ?S" by simp
    from ex [THEN conjunct1] have nr: "snd (deliver quits ?b cs) = None" .
    from ex [THEN conjunct2, THEN conjunct1]
    have inv: "loop_inv quits n ?S (leading ?S n) ?r" unfolding u .
    from ex [THEN conjunct2, THEN conjunct2] begin_cycle_settings [of st cyc n]
    have ss: "same_settings st ?r" by (rule same_settings_trans [rotated])
    from inv have ptr: "resultsPointer ?r = leading ?S n" and ok: "queue_ok n ?r"
      by (simp_all add: loop_inv_def)
    from ok have tr: "trace_upto ?r (resultsPointer ?r)"
      by (simp add: queue_ok_def)
    have ch: "on_channel ch (published ?r) = (if active st ch then [0..<leading ?S n] else [])"
      if "ch \<noteq> Prompt" for ch
      using tr that unfolding ptr trace_upto_def same_settings_active [OF ss] by blast
    have full: "leading ?S n = n" if "?S = {..<n}"
      by (rule leading_full) (simp add: that)
    from nr ptr ch [of TestComplete] ch [of Tally] ch [of Flush] ch [of "Writer k"] full
    show ?thesis by simp
  qed
  from a1 a2 a3 a4 b show ?thesis by blast
qed


theorem containerCallback_publishes_in_submission_order_witness:
  "distinct (map counter [example_container 2, example_container 0, example_container 1])
   \<and> snd (deliver (\<lambda>i. False) (begin_cycle example_runner 0 3)
         [example_container 2, example_container 0, example_container 1]) = None
   \<and> on_channel TestComplete (published (fst (deliver (\<lambda>i. False)
         (begin_cycle example_runner 0 3)
         [example_container 2, example_container 0, example_container 1]))) = [0, 1, 2]
   \<and> on_channel Tally (published (fst (deliver (\<lambda>i. False)
         (begin_cycle example_runner 0 3)
         [example_container 2, example_container 0, example_container 1]))) = [0, 1, 2]
   \<and> on_channel Flush (published (fst (deliver (\<lambda>i. False)
         (begin_cycle example_runner 0 3)
         [example_container 2, example_container 0, example_container 1]))) = [0, 1, 2]
   \<and> on_channel (Writer 0) (published (fst (deliver (\<lambda>i. False)
         (begin_cycle example_runner 0 3)
         [example_container 2, example_container 0, example_container 1]))) = [0, 1, 2]"
proof -
  let ?cs = "[example_container 2, example_container 0, example_container 1]"
  let ?q = "\<lambda>i::nat. False"
  have cnt: "counter (example_container i) = i" for i
    by (simp add: example_container_def init_container_def)
  have pub: "publishable ?q (example_container i)" for i
    by (simp add: publishable_def example_container_def)
  have h1: "distinct (map counter ?cs)" by (simp add: cnt)
  have h2: "\<forall>c \<in> set ?cs. counter c < 3 \<and> publishable ?q c" by (simp add: cnt pub)
  have h3: "counter ` set ?cs = {..<3}" by (auto simp: cnt)
  have t: "threads example_runner > 1"
    and w: "recordResults example_runner \<and> 0 < length (writers example_runner)"
    by (simp_all add: example_runner_def)
  note inst = containerCallback_publishes_in_submission_order
    [of ?q example_runner 0 3 ?cs 0, THEN conjunct2, THEN conjunct2, THEN conjunct2,
     THEN conjunct2, rule_format, OF conjI [OF h1 h2]]
  from inst [THEN conjunct2, THEN conjunct2, THEN conjunct2, THEN conjunct2, THEN conjunct2,
    THEN conjunct2, rule_format, OF h3]
  have l: "leading (counter ` set ?cs) 3 = 3" .
  have u: "[0..<3] = [0, 1, 2::nat]" by code_simp
  from inst [THEN conjunct1]
  have r1: "snd (deliver ?q (begin_cycle example_runner 0 3) ?cs) = None" .
  from inst [THEN conjunct2, THEN conjunct2, THEN conjunct1]
  have r2: "on_channel TestComplete (published (fst (deliver ?q
      (begin_cycle example_runner 0 3) ?cs))) = [0, 1, 2]"
    unfolding l u .
  from inst [THEN conjunct2, THEN conjunct2, THEN conjunct2, THEN conjunct1]
  have r3: "on_channel Tally (published (fst (deliver ?q
      (begin_cycle example_runner 0 3) ?cs))) = [0, 1, 2]"
    unfolding l u .
  from inst [THEN conjunct2, THEN conjunct2, THEN conjunct2, THEN conjunct2, THEN conjunct1,
    rule_format, OF t]
  have r4: "on_channel Flush (published (fst (deliver ?q
      (begin_cycle example_runner 0 3) ?cs))) = [0, 1, 2]"
    unfolding l u .
  from inst [THEN conjunct2, THEN conjunct2, THEN conjunct2, THEN conjunct2, THEN conjunct2,
    THEN conjunct1, rule_format, OF w]
  have r5: "on_channel (Writer 0) (published (fst (deliver ?q
      (begin_cycle example_runner 0 3) ?cs))) = [0, 1, 2]"
    unfolding l u .
  from h1 r1 r2 r3 r4 r5 show ?thesis by (intro conjI)
qed

subsection \<open>Duplicate result keys\<close>

lemma strip_unchanged:
  assumes "s \<noteq> []" and "\<not> isspace (hd s)" and "\<not> isspace (last s)"
  shows "strip s = s"
proof -
  from assms(1,2) have 1: "dropWhile isspace s = s" by (cases s) simp_all
  from assms(1) have "rev s \<noteq> []" by simp
  moreover from assms(1,3) have "\<not> isspace (hd (rev s))" by (simp add: hd_rev)
  ultimately have 2: "dropWhile isspace (rev s) = rev s" by (cases "rev s") simp_all
  show ?thesis by (simp add: strip_def 1 2)
qed

lemma getOutcome_add_BLOCKED:
  "getOutcome (st\<lparr>outcome := outcome st @ [BLOCKED]\<rparr>)
     = (if getOutcome st = SKIPPED then SKIPPED else BLOCKED)"
proof (cases "outcome st = []")
  case True
  then show ?thesis by (simp add: getOutcome_def)
next
  case False
  show ?thesis
    unfolding getOutcome_append [OF False]
    by (cases "getOutcome st") (simp_all add: PRECEDENT_def)
qed

lemma addOutcome_BLOCKED:
  assumes "reason \<noteq> []" and "\<not> isspace (hd reason)" and "\<not> isspace (last reason)"
  shows "addOutcome FAILS t BLOCKED reason None =
     (t\<lparr>outcome := outcome t @ [BLOCKED],
        outcomeReason := (if getOutcome t = SKIPPED \<or> getOutcome t = BLOCKED
                          then outcomeReason t else reason)\<rparr>,
      if BLOCKED \<in> set FAILS \<and> defaultAbortOnError t
      then Some (AbortExecution BLOCKED reason) else None)"
  using assms(1)
  by (simp add: addOutcome_def Let_def getOutcome_add_BLOCKED strip_unchanged [OF assms])

lemma reportResult_after_checks:
  assumes "checkResultKey (strip key) = None"
    and "coerce_value float_of v = Inr x"
    and "resolve_unit u = Inr pu"
    and "valueToDisplayString x = Inr shown"
  shows "reportResult FAILS float_of rep files t v key u tol details =
     (let d = dict_set (ordered_dict details) ''testId'' (testDescriptorId t);
          record_it = (\<lambda>rep'.
             if getOutcome t \<in> set FAILS then (rep', files, t, None)
             else (rep',
                   fst (recordResult rep' files
                          (formatResult t x (strip key) pu tol (ordered_dict details)) t),
                   t,
                   snd (recordResult rep' files
                          (formatResult t x (strip key) pu tol (ordered_dict details)) t)))
      in case previousResultKeys rep (strip key) of
           Some (tid0, hash0, d0) \<Rightarrow>
             if hash0 = objectHash t
             then (rep, files,
                   addOutcome FAILS t BLOCKED
                     (''Cannot report performance result as resultKey was already ''
                      @ ''used by this test: '' @ [CHR 0x22] @ strip key @ [CHR 0x22]) None)
             else if tid0 \<noteq> testDescriptorId t \<or> d0 \<noteq> d
             then (rep, files,
                   addOutcome FAILS t BLOCKED
                     (''Cannot report performance result as resultKey was already ''
                      @ ''used - resultKey must be unique across all tests and modes: ''
                      @ [CHR 0x22] @ strip key @ [CHR 0x22]
                      @ '' (already used by '' @ repr_items d0 @ '')'') None)
             else record_it rep
         | None \<Rightarrow>
             record_it (rep\<lparr>previousResultKeys :=
               (previousResultKeys rep)(strip key \<mapsto> (testDescriptorId t, objectHash t, d))\<rparr>))"
  using assms
  by (simp add: reportResult_def Let_def case_prod_beta split: option.splits)

text \<open>
  C6. A call of \<open>reportResult\<close> that passes the checks of its arguments, with a result
  key that was reported before. When the stored hash is that of the current test object,
  \<open>BLOCKED\<close> is added with the reason
  \<open>Cannot report performance result as resultKey was already used by this test: "KEY"\<close>
  and the reporter and the files are left as they are. Otherwise, when the stored test id
  or the stored result details differ from the current ones, \<open>BLOCKED\<close> is added with the
  reason \<open>Cannot report performance result as resultKey was already used - resultKey must
  be unique across all tests and modes: "KEY" (already used by ITEMS)\<close>, where \<open>ITEMS\<close>
  is the list of the stored details, and the reporter and the files are left as they are.
  In both cases the reason becomes the outcome reason unless the outcome of the test was
  \<open>SKIPPED\<close> or \<open>BLOCKED\<close> already, and the call raises the abort when \<open>BLOCKED\<close> is
  in \<open>FAILS\<close> and the test aborts on error by default. Otherwise (same test id and
  details, another test object) the result is accepted: no outcome is added, and unless
  the test has failed already the formatted line is written to the two files.
\<close>

theorem reportResult_duplicate_key_policy:
  fixes t :: "'f test_object"
  assumes "previousResultKeys rep (strip key) = Some (tid0, hash0, d0)"
    and "checkResultKey (strip key) = None"
    and "coerce_value float_of v = Inr x"
    and "resolve_unit u = Inr pu"
    and "valueToDisplayString x = Inr shown"
  shows "(hash0 = objectHash t \<longrightarrow>
           (let reason = ''Cannot report performance result as resultKey was already ''
                         @ ''used by this test: '' @ [CHR 0x22] @ strip key @ [CHR 0x22]
            in reportResult FAILS float_of rep files t v key u tol details
                 = (rep, files,
                    t\<lparr>outcome := outcome t @ [BLOCKED],
                      outcomeReason := (if getOutcome t = SKIPPED \<or> getOutcome t = BLOCKED
                                        then outcomeReason t else reason)\<rparr>,
                    if BLOCKED \<in> set FAILS \<and> defaultAbortOnError t
                    then Some (AbortExecution BLOCKED reason) else None)))
    \<and> (hash0 \<noteq> objectHash t
         \<and> (tid0 \<noteq> testDescriptorId t
              \<or> d0 \<noteq> dict_set (ordered_dict details) ''testId'' (testDescriptorId t)) \<longrightarrow>
           (let reason = ''Cannot report performance result as resultKey was already ''
                         @ ''used - resultKey must be unique across all tests and modes: ''
                         @ [CHR 0x22] @ strip key @ [CHR 0x22]
                         @ '' (already used by '' @ repr_items d0 @ '')''
            in reportResult FAILS float_of rep files t v key u tol details
                 = (rep, files,
                    t\<lparr>outcome := outcome t @ [BLOCKED],
                      outcomeReason := (if getOutcome t = SKIPPED \<or> getOutcome t = BLOCKED
                                        then outcomeReason t else reason)\<rparr>,
                    if BLOCKED \<in> set FAILS \<and> defaultAbortOnError t
                    then Some (AbortExecution BLOCKED reason) else None)))
    \<and> (hash0 \<noteq> objectHash t \<and> tid0 = testDescriptorId t
         \<and> d0 = dict_set (ordered_dict details) ''testId'' (testDescriptorId t) \<longrightarrow>
           reportResult FAILS float_of rep files t v key u tol details
             = (if getOutcome t \<in> set FAILS then (rep, files, t, None)
                else (rep,
                      fst (recordResult rep files
                             (formatResult t x (strip key) pu tol (ordered_dict details)) t),
                      t,
                      snd (recordResult rep files
                             (formatResult t x (strip key) pu tol (ordered_dict details)) t))))"
proof -
  let ?r1 = "''Cannot report performance result as resultKey was already ''
             @ ''used by this test: '' @ [CHR 0x22] @ strip key @ [CHR 0x22]"
  let ?r2 = "''Cannot report performance result as resultKey was already ''
             @ ''used - resultKey must be unique across all tests and modes: ''
             @ [CHR 0x22] @ strip key @ [CHR 0x22]
             @ '' (already used by '' @ repr_items d0 @ '')''"
  have a1: "addOutcome FAILS t BLOCKED ?r1 None =
     (t\<lparr>outcome := outcome t @ [BLOCKED],
        outcomeReason := (if getOutcome t = SKIPPED \<or> getOutcome t = BLOCKED
                          then outcomeReason t else ?r1)\<rparr>,
      if BLOCKED \<in> set FAILS \<and> defaultAbortOnError t
      then Some (AbortExecution BLOCKED ?r1) else None)"
    by (rule addOutcome_BLOCKED) (simp_all add: isspace_def)
  have a2: "addOutcome FAILS t BLOCKED ?r2 None =
     (t\<lparr>outcome := outcome t @ [BLOCKED],
        outcomeReason := (if getOutcome t = SKIPPED \<or> getOutcome t = BLOCKED
                          then outcomeReason t else ?r2)\<rparr>,
      if BLOCKED \<in> set FAILS \<and> defaultAbortOnError t
      then Some (AbortExecution BLOCKED ?r2) else None)"
    by (rule addOutcome_BLOCKED) (simp_all add: isspace_def)
  show ?thesis
    unfolding reportResult_after_checks [OF assms(2,3,4,5)] assms(1) Let_def option.case
      prod.case a1 a2
    by simp
qed



theorem reportResult_duplicate_key_policy_witness:
  "reportResult [BLOCKED, DUMPEDCORE, FAILED, TIMEDOUT] (\<lambda>s. None)
       (fst (reportResult [BLOCKED, DUMPEDCORE, FAILED, TIMEDOUT] (\<lambda>s. None) example_reporter
          Map.empty (example_test ''Perf_001'' 11) (Number example_10) ''throughput''
          (UnitName ''/s'') py_None [(''mode'', ''fast'')]))
       (fst (snd (reportResult [BLOCKED, DUMPEDCORE, FAILED, TIMEDOUT] (\<lambda>s. None)
          example_reporter Map.empty (example_test ''Perf_001'' 11) (Number example_10)
          ''throughput'' (UnitName ''/s'') py_None [(''mode'', ''fast'')])))
       (example_test ''Perf_001'' 11) (Number example_12_5) ''throughput'' (UnitName ''/s'')
       py_None [(''mode'', ''fast'')]
     = (fst (reportResult [BLOCKED, DUMPEDCORE, FAILED, TIMEDOUT] (\<lambda>s. None) example_reporter
          Map.empty (example_test ''Perf_001'' 11) (Number example_10) ''throughput''
          (UnitName ''/s'') py_None [(''mode'', ''fast'')]),
        fst (snd (reportResult [BLOCKED, DUMPEDCORE, FAILED, TIMEDOUT] (\<lambda>s. None)
          example_reporter Map.empty (example_test ''Perf_001'' 11) (Number example_10)
          ''throughput'' (UnitName ''/s'') py_None [(''mode'', ''fast'')])),
        (example_test ''Perf_001'' 11)
          \<lparr>outcome := [BLOCKED],
           outcomeReason :=
             ''Cannot report performance result as resultKey was already used by this test: ''
             @ [CHR 0x22] @ ''throughput'' @ [CHR 0x22]\<rparr>,
        None)
   \<and> reportResult [BLOCKED, DUMPEDCORE, FAILED, TIMEDOUT] (\<lambda>s. None)
       (fst (reportResult [BLOCKED, DUMPEDCORE, FAILED, TIMEDOUT] (\<lambda>s. None) example_reporter
          Map.empty (example_test ''Perf_001'' 11) (Number example_10) ''throughput''
          (UnitName ''/s'') py_None [(''mode'', ''fast'')]))
       (fst (snd (reportResult [BLOCKED, DUMPEDCORE, FAILED, TIMEDOUT] (\<lambda>s. None)
          example_reporter Map.empty (example_test ''Perf_001'' 11) (Number example_10)
          ''throughput'' (UnitName ''/s'') py_None [(''mode'', ''fast'')])))
       (example_test ''Perf_002'' 13) (Number example_12_5) ''throughput'' (UnitName ''/s'')
       py_None [(''mode'', ''fast'')]
     = (fst (reportResult [BLOCKED, DUMPEDCORE, FAILED, TIMEDOUT] (\<lambda>s. None) example_reporter
          Map.empty (example_test ''Perf_001'' 11) (Number example_10) ''throughput''
          (UnitName ''/s'') py_None [(''mode'', ''fast'')]),
        fst (snd (reportResult [BLOCKED, DUMPEDCORE, FAILED, TIMEDOUT] (\<lambda>s. None)
          example_reporter Map.empty (example_test ''Perf_001'' 11) (Number example_10)
          ''throughput'' (UnitName ''/s'') py_None [(''mode'', ''fast'')])),
        (example_test ''Perf_002'' 13)
          \<lparr>outcome := [BLOCKED],
           outcomeReason :=
             ''Cannot report performance result as resultKey was already used - resultKey ''
             @ ''must be unique across all tests and modes: ''
             @ [CHR 0x22] @ ''throughput'' @ [CHR 0x22]
             @ '' (already used by [('mode', 'fast'), ('testId', 'Perf_001')])''\<rparr>,
        None)
   \<and> fst (snd (reportResult [BLOCKED, DUMPEDCORE, FAILED, TIMEDOUT] (\<lambda>s. None)
       (fst (reportResult [BLOCKED, DUMPEDCORE, FAILED, TIMEDOUT] (\<lambda>s. None) example_reporter
          Map.empty (example_test ''Perf_001'' 11) (Number example_10) ''throughput''
          (UnitName ''/s'') py_None [(''mode'', ''fast'')]))
       (fst (snd (reportResult [BLOCKED, DUMPEDCORE, FAILED, TIMEDOUT] (\<lambda>s. None)
          example_reporter Map.empty (example_test ''Perf_001'' 11) (Number example_10)
          ''throughput'' (UnitName ''/s'') py_None [(''mode'', ''fast'')])))
       (example_test ''Perf_001'' 12) (Number example_12_5) ''throughput'' (UnitName ''/s'')
       py_None [(''mode'', ''fast'')]))
       ''/proj/performance_output/linux_host/perf_2018-01-01_00.00.00.csv''
     = Some (''# resultKey,testId,value,unit,biggerIsBetter,toleranceStdDevs,samples,stdDev,''
             @ ''#runDetails:#,outdir=linux,hostname=host,time=2018-01-01 00:00:00'' @ [CHR 0x0A]
             @ ''throughput,Perf_001,10,/s,TRUE,,1,0,#resultDetails:#,mode=fast,mode=fast''
             @ [CHR 0x0A]
             @ ''throughput,Perf_001,12.5,/s,TRUE,,1,0,#resultDetails:#,mode=fast,mode=fast''
             @ [CHR 0x0A])
   \<and> snd (snd (reportResult [BLOCKED, DUMPEDCORE, FAILED, TIMEDOUT] (\<lambda>s. None)
       (fst (reportResult [BLOCKED, DUMPEDCORE, FAILED, TIMEDOUT] (\<lambda>s. None) example_reporter
          Map.empty (example_test ''Perf_001'' 11) (Number example_10) ''throughput''
          (UnitName ''/s'') py_None [(''mode'', ''fast'')]))
       (fst (snd (reportResult [BLOCKED, DUMPEDCORE, FAILED, TIMEDOUT] (\<lambda>s. None)
          example_reporter Map.empty (example_test ''Perf_001'' 11) (Number example_10)
          ''throughput'' (UnitName ''/s'') py_None [(''mode'', ''fast'')])))
       (example_test ''Perf_001'' 12) (Number example_12_5) ''throughput'' (UnitName ''/s'')
       py_None [(''mode'', ''fast'')]))
     = (example_test ''Perf_001'' 12, None)"
proof -
  let ?F = "[BLOCKED, DUMPEDCORE, FAILED, TIMEDOUT]"
  let ?f = "\<lambda>s::string. None :: py_number option"
  let ?d = "[(''mode'', ''fast'')] :: (string \<times> string) list"
  let ?d' = "[(''mode'', ''fast''), (''testId'', ''Perf_001'')] :: (string \<times> string) list"
  let ?hdr = "''# resultKey,testId,value,unit,biggerIsBetter,toleranceStdDevs,samples,stdDev,''
     @ ''#runDetails:#,outdir=linux,hostname=host,time=2018-01-01 00:00:00'' @ [CHR 0x0A]"
  let ?row1 = "''throughput,Perf_001,10,/s,TRUE,,1,0,#resultDetails:#,mode=fast,mode=fast''
     @ [CHR 0x0A]"
  let ?row2 = "''throughput,Perf_001,12.5,/s,TRUE,,1,0,#resultDetails:#,mode=fast,mode=fast''
     @ [CHR 0x0A]"
  let ?sp = "''/proj/performance_output/linux_host/perf_2018-01-01_00.00.00.csv''"
  let ?tp = "''out/performance_results.csv''"
  let ?keys = "[''throughput'' \<mapsto> (''Perf_001'', 11 :: nat, ?d')]"
  let ?rep = "example_reporter\<lparr>previousResultKeys := ?keys\<rparr>"
  let ?files = "[?tp \<mapsto> ?hdr @ ?row1, ?sp \<mapsto> ?hdr @ ?row1]"
  let ?first = "reportResult ?F ?f example_reporter Map.empty (example_test ''Perf_001'' 11)
      (Number example_10) ''throughput'' (UnitName ''/s'') py_None ?d"
  have k: "strip ''throughput'' = ''throughput''"
    by (simp add: strip_def isspace_def)
  have ck: "checkResultKey (strip ''throughput'') = None"
    unfolding k by (simp add: checkResultKey_def datetime_at_def)
  have cv: "coerce_value ?f (Number y) = Inr y" for y
    by (simp add: coerce_value_def)
  have ru: "resolve_unit (UnitName ''/s'') = Inr PER_SECOND"
    by (simp add: resolve_unit_def unitAliases_def)
  have vd1: "valueToDisplayString example_10 = Inr ''10''"
    by (simp add: valueToDisplayString_def example_10_def)
  have vd2: "valueToDisplayString example_12_5 = Inr ''12.5''"
    by (simp add: valueToDisplayString_def example_12_5_def)
  have od: "ordered_dict ?d = ?d" by (simp add: ordered_dict_def)
  have id: "testDescriptorId (example_test tid h) = tid"
    and hs: "objectHash (example_test tid h) = h"
    and oc: "outcome (example_test tid h) = []"
    and ab: "defaultAbortOnError (example_test tid h) = False"
    and out: "outputDir (example_test tid h) = ''out''" for tid h
    by (simp_all add: example_test_def)
  have go: "getOutcome (example_test tid h) = NOTVERIFIED" for tid h
    by (simp add: getOutcome_def oc)
  have dd: "dict_set (ordered_dict ?d) ''testId'' (testDescriptorId (example_test ''Perf_001'' h))
      = ?d'" for h
    unfolding od id by simp
  have hdr: "getRunHeader (example_reporter\<lparr>previousResultKeys := m\<rparr>) = ?hdr" for m
    by (simp add: getRunHeader_def example_reporter_def toCSVLine_list_def COLUMNS_def
        RUN_DETAILS_def replace_char_def strip_def isspace_def)
  have sp: "getRunSummaryFile (example_reporter\<lparr>previousResultKeys := m\<rparr>)
      (example_test tid h) = Inr ?sp" for m tid h
    by (simp add: getRunSummaryFile_def example_reporter_def example_test_def Let_def
        basename_def path_join_def)
  have row1: "formatResult (example_test ''Perf_001'' h) example_10 ''throughput'' PER_SECOND
      py_None ?d = ?row1" for h
    by (simp add: formatResult_def toCSVLine_dict_def toCSVLine_list_def COLUMNS_def
        RESULT_DETAILS_def replace_char_def strip_def isspace_def example_test_def
        example_10_def PER_SECOND_def py_None_def)
  have row2: "formatResult (example_test ''Perf_001'' h) example_12_5 ''throughput'' PER_SECOND
      py_None ?d = ?row2" for h
    by (simp add: formatResult_def toCSVLine_dict_def toCSVLine_list_def COLUMNS_def
        RESULT_DETAILS_def replace_char_def strip_def isspace_def example_test_def
        example_12_5_def PER_SECOND_def py_None_def)
  have rec1: "recordResult ?rep Map.empty ?row1 (example_test ''Perf_001'' 11) = (?files, None)"
    by (simp add: recordResult_def Let_def sp hdr out append_to_file_def)
  have rec2: "fst (recordResult ?rep ?files ?row2 (example_test ''Perf_001'' 12)) ?sp
        = Some (?hdr @ ?row1 @ ?row2)
      \<and> snd (recordResult ?rep ?files ?row2 (example_test ''Perf_001'' 12)) = None"
    by (simp add: recordResult_def Let_def sp hdr out append_to_file_def)
  have emp: "previousResultKeys example_reporter = Map.empty"
    by (simp add: example_reporter_def)
  have first: "?first = (?rep, ?files, example_test ''Perf_001'' 11, None)"
    by (simp add: reportResult_after_checks [OF ck cv [of example_10] ru vd1] k od id hs go
        emp row1 rec1 [simplified] Let_def)
  have rep1: "fst ?first = ?rep" and files1: "fst (snd ?first) = ?files"
    unfolding first by simp_all
  have prev: "previousResultKeys ?rep (strip ''throughput'') = Some (''Perf_001'', 11, ?d')"
    unfolding k by simp
  have rp: "repr_items ?d' = ''[('mode', 'fast'), ('testId', 'Perf_001')]''"
    by (simp add: repr_items_def repr_str_def repr_char_def Let_def)
  note same = reportResult_duplicate_key_policy
    [OF prev ck cv [of example_12_5] ru vd2, where t = "example_test ''Perf_001'' 11"
      and FAILS = ?F and tol = py_None and details = ?d and files = ?files,
      THEN conjunct1, rule_format, unfolded Let_def k]
  have 1: "reportResult ?F ?f ?rep ?files (example_test ''Perf_001'' 11) (Number example_12_5)
      ''throughput'' (UnitName ''/s'') py_None ?d
    = (?rep, ?files,
       (example_test ''Perf_001'' 11)
          \<lparr>outcome := [BLOCKED],
           outcomeReason :=
             ''Cannot report performance result as resultKey was already used by this test: ''
             @ [CHR 0x22] @ ''throughput'' @ [CHR 0x22]\<rparr>,
       None)"
    using same by (simp add: hs go oc ab)
  note other = reportResult_duplicate_key_policy
    [OF prev ck cv [of example_12_5] ru vd2, where t = "example_test ''Perf_002'' 13"
      and FAILS = ?F and tol = py_None and details = ?d and files = ?files,
      THEN conjunct2, THEN conjunct1, rule_format, unfolded Let_def k rp]
  have 2: "reportResult ?F ?f ?rep ?files (example_test ''Perf_002'' 13) (Number example_12_5)
      ''throughput'' (UnitName ''/s'') py_None ?d
    = (?rep, ?files,
       (example_test ''Perf_002'' 13)
          \<lparr>outcome := [BLOCKED],
           outcomeReason :=
             ''Cannot report performance result as resultKey was already used - resultKey ''
             @ ''must be unique across all tests and modes: ''
             @ [CHR 0x22] @ ''throughput'' @ [CHR 0x22]
             @ '' (already used by [('mode', 'fast'), ('testId', 'Perf_001')])''\<rparr>,
       None)"
    using other by (simp add: hs id go oc ab)
  note cycle = reportResult_duplicate_key_policy
    [OF prev ck cv [of example_12_5] ru vd2, where t = "example_test ''Perf_001'' 12"
      and FAILS = ?F and tol = py_None and details = ?d and files = ?files,
      THEN conjunct2, THEN conjunct2, rule_format, unfolded k dd od row2]
  have c: "reportResult ?F ?f ?rep ?files (example_test ''Perf_001'' 12) (Number example_12_5)
      ''throughput'' (UnitName ''/s'') py_None ?d
    = (?rep, fst (recordResult ?rep ?files ?row2 (example_test ''Perf_001'' 12)),
       example_test ''Perf_001'' 12,
       snd (recordResult ?rep ?files ?row2 (example_test ''Perf_001'' 12)))"
    using cycle by (simp add: hs id go)
  have 3: "fst (snd (reportResult ?F ?f ?rep ?files (example_test ''Perf_001'' 12)
      (Number example_12_5) ''throughput'' (UnitName ''/s'') py_None ?d)) ?sp
    = Some (?hdr @ ?row1 @ ?row2)"
    unfolding c using rec2 by simp
  have 4: "snd (snd (reportResult ?F ?f ?rep ?files (example_test ''Perf_001'' 12)
      (Number example_12_5) ''throughput'' (UnitName ''/s'') py_None ?d))
    = (example_test ''Perf_001'' 12, None)"
    unfolding c using rec2 by simp
  show ?thesis
    unfolding rep1 files1 using 1 2 3 4 by simp
qed

end
